theory Spec2Isabelle
  imports Main
begin

section \<open>Leaffliction: the mask-extraction pipeline of Transformation.py\<close>

subsection \<open>Data model\<close>

text \<open>
  An image is a grid of pixels stored row by row; a pixel carries three integer
  channels. A grayscale buffer holds one intensity per cell and a binary mask one
  label per cell (255 and 0 in the numpy arrays of the program).
\<close>

datatype label = FOREGROUND | BACKGROUND

type_synonym pixel = "nat \<times> nat \<times> nat"
type_synonym image = "pixel list list"
type_synonym gray = "nat list list"
type_synonym mask = "label list list"
type_synonym cell = "nat \<times> nat"

definition height :: "'a list list \<Rightarrow> nat" where
  "height g = length g"

definition width :: "'a list list \<Rightarrow> nat" where
  "width g = (case g of [] \<Rightarrow> 0 | row # _ \<Rightarrow> length row)"

definition in_grid :: "'a list list \<Rightarrow> cell \<Rightarrow> bool" where
  "in_grid g rc = (fst rc < length g \<and> snd rc < length (g ! fst rc))"

definition cell_at :: "'a list list \<Rightarrow> cell \<Rightarrow> 'a" where
  "cell_at g rc = g ! fst rc ! snd rc"

definition imap :: "(nat \<Rightarrow> 'a \<Rightarrow> 'b) \<Rightarrow> 'a list \<Rightarrow> 'b list" where
  "imap f xs = map (\<lambda>ix. f (fst ix) (snd ix)) (enumerate 0 xs)"

definition cells :: "'a list list \<Rightarrow> cell list" where
  "cells g = concat (imap (\<lambda>r row. map (\<lambda>c. (r, c)) [0 ..< length row]) g)"

subsection \<open>Exceptions and observable effects\<close>

text \<open>
  A Python exception is a value; \<open>str_of\<close> is the text that an f-string prints for it.
  Everything a call does besides returning is appended to a trace: lines printed,
  library routines entered, files read and written, and the mask handed to a
  downstream consumer.
\<close>

datatype error = ValueError string | IndexError string | LibraryError string

fun str_of :: "error \<Rightarrow> string" where
  "str_of (ValueError msg) = msg"
| "str_of (IndexError msg) = msg"
| "str_of (LibraryError msg) = msg"

datatype event =
    Printed string
  | Called string
  | Makedirs string
  | Read string
  | Written string
  | MaskUsed string mask

type_synonym 'a io = "(error + 'a) \<times> event list"

definition ret :: "'a \<Rightarrow> 'a io" where
  "ret x = (Inr x, [])"

definition raise :: "error \<Rightarrow> 'a io" where
  "raise e = (Inl e, [])"

definition emit :: "event \<Rightarrow> unit io" where
  "emit ev = (Inr (), [ev])"

definition bind :: "'a io \<Rightarrow> ('a \<Rightarrow> 'b io) \<Rightarrow> 'b io" where
  "bind m f =
     (case m of
        (Inl e, t) \<Rightarrow> (Inl e, t)
      | (Inr x, t) \<Rightarrow> (case f x of (r, t') \<Rightarrow> (r, t @ t')))"

definition try_except :: "'a io \<Rightarrow> (error \<Rightarrow> 'a io) \<Rightarrow> 'a io" where
  "try_except m handler =
     (case m of
        (Inl e, t) \<Rightarrow> (case handler e of (r, t') \<Rightarrow> (r, t @ t'))
      | (Inr x, t) \<Rightarrow> (Inr x, t))"

definition effect :: "event \<Rightarrow> error + 'a \<Rightarrow> 'a io" where
  "effect ev r = (r, [ev])"

definition lift :: "string \<Rightarrow> error + 'a \<Rightarrow> 'a io" where
  "lift name r = effect (Called name) r"

definition write_file :: "string \<Rightarrow> string \<Rightarrow> error + unit \<Rightarrow> unit io" where
  "write_file name path r =
     (case r of Inl e \<Rightarrow> (Inl e, [Called name]) | Inr u \<Rightarrow> (Inr u, [Called name, Written path]))"

subsection \<open>Colorspace projection\<close>

text \<open>
  The pixel-level colour conversions are floating-point routines of OpenCV and
  PlantCV; they are parameters of the development.
\<close>

record colorspaces =
  lab :: "pixel \<Rightarrow> nat \<times> nat \<times> nat"
  hsv :: "pixel \<Rightarrow> nat \<times> nat \<times> nat"
  cmyk :: "pixel \<Rightarrow> nat \<times> nat \<times> nat \<times> nat"

text \<open>
  Modelled from the spec: \<open>pcv.rgb2gray_lab\<close>, \<open>pcv.rgb2gray_hsv\<close> and
  \<open>pcv.rgb2gray_cmyk\<close> belong to the PlantCV library and are not among the sources.
  Section 4.1: the image is converted into the target colorspace and the named channel
  is extracted as a single-channel buffer with the same spatial dimensions.
\<close>

definition rgb2gray_lab :: "colorspaces \<Rightarrow> image \<Rightarrow> string \<Rightarrow> gray" where
  "rgb2gray_lab cs img channel =
     map (map (\<lambda>p. case lab cs p of (l, a, b) \<Rightarrow>
        if channel = ''l'' then l else if channel = ''a'' then a else b)) img"

text \<open>Modelled from the spec: section 4.1, for the channels of HSV.\<close>

definition rgb2gray_hsv :: "colorspaces \<Rightarrow> image \<Rightarrow> string \<Rightarrow> gray" where
  "rgb2gray_hsv cs img channel =
     map (map (\<lambda>p. case hsv cs p of (h, s, v) \<Rightarrow>
        if channel = ''h'' then h else if channel = ''s'' then s else v)) img"

text \<open>Modelled from the spec: section 4.1, for the channels of CMYK.\<close>

definition rgb2gray_cmyk :: "colorspaces \<Rightarrow> image \<Rightarrow> string \<Rightarrow> gray" where
  "rgb2gray_cmyk cs img channel =
     map (map (\<lambda>p. case cmyk cs p of (c, m, y, k) \<Rightarrow>
        if channel = ''c'' then c else if channel = ''m'' then m
        else if channel = ''y'' then y else k)) img"

subsection \<open>Binary thresholding\<close>

text \<open>
  Modelled from the spec: \<open>pcv.threshold.otsu\<close> belongs to the PlantCV library and is
  not among the sources; every definition of this subsection follows section 4.2 of the
  specification. The polarity says which class is the object; the source passes
  \<open>object_type="light"\<close>.
\<close>

datatype polarity = LIGHT_IS_OBJECT | DARK_IS_OBJECT

text \<open>
  Modelled from the spec: the two classes that a candidate threshold \<open>t\<close> induces on
  the intensities, the pixels below \<open>t\<close> and the pixels at or above it.
\<close>

definition lower :: "nat list \<Rightarrow> nat \<Rightarrow> nat list" where
  "lower vs t = filter (\<lambda>v. v < t) vs"

definition upper :: "nat list \<Rightarrow> nat \<Rightarrow> nat list" where
  "upper vs t = filter (\<lambda>v. t \<le> v) vs"

text \<open>
  Modelled from the spec: the inter-class variance of the split at \<open>t\<close>, as a fraction (numerator,
  denominator) with the constant factor of the squared pixel count left out:
  \<open>w0 * w1 * (mu0 - mu1)\<^sup>2\<close> with \<open>w\<^sub>i = n\<^sub>i / N\<close> and \<open>mu\<^sub>i = s\<^sub>i / n\<^sub>i\<close>. A split with
  an empty class separates nothing and scores zero.
\<close>

definition separation :: "nat list \<Rightarrow> nat \<Rightarrow> int \<times> int" where
  "separation vs t =
     (let n0 = int (length (lower vs t)); n1 = int (length (upper vs t));
          s0 = int (sum_list (lower vs t)); s1 = int (sum_list (upper vs t))
      in if n0 = 0 \<or> n1 = 0 then (0, 1)
         else ((s0 * n1 - s1 * n0) * (s0 * n1 - s1 * n0), n0 * n1))"

text \<open>
  Modelled from the spec: the threshold maximising the inter-class variance, searched
  over the intensities that occur, in ascending order; the first maximum is kept and a
  split counts only if its variance is positive. \<open>better p q\<close> compares the fractions
  without division.
\<close>

definition better :: "int \<times> int \<Rightarrow> int \<times> int \<Rightarrow> bool" where
  "better p q = (fst q * snd p < fst p * snd q)"

fun otsu_scan :: "nat list \<Rightarrow> nat list \<Rightarrow> (nat \<times> int \<times> int) option \<Rightarrow> (nat \<times> int \<times> int) option" where
  "otsu_scan vs [] best = best"
| "otsu_scan vs (t # ts) best =
     otsu_scan vs ts
       (if better (separation vs t) (case best of None \<Rightarrow> (0, 1) | Some b \<Rightarrow> snd b)
        then Some (t, separation vs t) else best)"

definition otsu_threshold :: "nat list \<Rightarrow> nat option" where
  "otsu_threshold vs = map_option fst (otsu_scan vs (sort (remdups vs)) None)"

text \<open>
  Modelled from the spec: \<open>pcv.threshold.otsu\<close> belongs to the PlantCV library and is
  not among the sources. Section 4.2: a global threshold \<open>t\<close> maximising the
  inter-class variance over the histogram is computed, and every pixel with intensity
  \<open>\<ge> t\<close> is FOREGROUND for LIGHT_IS_OBJECT, else BACKGROUND; a degenerate threshold
  (no split separates two classes) puts every pixel into BACKGROUND.
\<close>

definition otsu :: "gray \<Rightarrow> polarity \<Rightarrow> mask" where
  "otsu g object_type =
     (case otsu_threshold (concat g) of
        None \<Rightarrow> map (map (\<lambda>v. BACKGROUND)) g
      | Some t \<Rightarrow>
          map (map (\<lambda>v. case object_type of
                 LIGHT_IS_OBJECT \<Rightarrow> (if t \<le> v then FOREGROUND else BACKGROUND)
               | DARK_IS_OBJECT \<Rightarrow> (if v < t then FOREGROUND else BACKGROUND))) g)"

subsection \<open>Hole filling\<close>

text \<open>
  Modelled from the spec: \<open>pcv.fill_holes\<close> belongs to the PlantCV library and is not
  among the sources; every definition of this subsection follows sections 4.3 and 9 of
  the specification. The neighbours of a cell under 8-connectivity, the cells on the
  image boundary, and the number of cells not yet visited by the flood fill.
\<close>

definition near :: "nat \<Rightarrow> nat list" where
  "near n = (if n = 0 then [] else [n - 1]) @ [n, Suc n]"

definition nbrs8 :: "cell \<Rightarrow> cell list" where
  "nbrs8 rc =
     filter (\<lambda>d. d \<noteq> rc) (concat (map (\<lambda>r. map (\<lambda>c. (r, c)) (near (snd rc))) (near (fst rc))))"

definition on_border :: "'a list list \<Rightarrow> cell \<Rightarrow> bool" where
  "on_border g rc =
     (fst rc = 0 \<or> snd rc = 0 \<or> Suc (fst rc) = length g \<or> Suc (snd rc) = length (g ! fst rc))"

definition border_cells :: "'a list list \<Rightarrow> cell list" where
  "border_cells g = filter (on_border g) (cells g)"

definition is_bg :: "mask \<Rightarrow> cell \<Rightarrow> bool" where
  "is_bg m rc = (in_grid m rc \<and> cell_at m rc = BACKGROUND)"

definition unvisited :: "mask \<Rightarrow> cell list \<Rightarrow> nat" where
  "unvisited m visited = length (filter (\<lambda>rc. rc \<notin> set visited) (cells m))"

lemma imap_length [simp]: "length (imap f xs) = length xs"
  by (simp add: imap_def)

lemma imap_nth [simp]: "i < length xs \<Longrightarrow> imap f xs ! i = f i (xs ! i)"
  by (simp add: imap_def nth_enumerate_eq)

lemma in_set_imap: "y \<in> set (imap f xs) \<longleftrightarrow> (\<exists>i < length xs. y = f i (xs ! i))"
proof -
  have "y \<in> set (imap f xs) \<longleftrightarrow> (\<exists>i < length (imap f xs). imap f xs ! i = y)"
    by (simp only: in_set_conv_nth)
  then show ?thesis by auto
qed

lemma in_cells: "rc \<in> set (cells g) \<longleftrightarrow> in_grid g rc"
proof (cases rc)
  case (Pair r c)
  have "(r, c) \<in> set (cells g) \<longleftrightarrow>
        (\<exists>ys. ys \<in> set (imap (\<lambda>r row. map (\<lambda>c. (r, c)) [0 ..< length row]) g) \<and> (r, c) \<in> set ys)"
    by (auto simp add: cells_def)
  also have "\<dots> \<longleftrightarrow>
        (\<exists>i < length g. (r, c) \<in> set (map (\<lambda>c. (i, c)) [0 ..< length (g ! i)]))"
    unfolding in_set_imap by blast
  also have "\<dots> \<longleftrightarrow> (\<exists>i < length g. r = i \<and> c < length (g ! i))"
    by auto
  also have "\<dots> \<longleftrightarrow> (r < length g \<and> c < length (g ! r))"
    by blast
  finally show ?thesis by (simp add: Pair in_grid_def)
qed

lemma unvisited_less:
  assumes "in_grid m rc" and "rc \<notin> set visited"
  shows "unvisited m (rc # visited) < unvisited m visited"
proof -
  have mem: "rc \<in> set (cells m)" using assms(1) by (simp add: in_cells)
  have "length (filter (\<lambda>x. x \<notin> set (rc # visited)) xs)
        \<le> length (filter (\<lambda>x. x \<notin> set visited) xs)" for xs :: "cell list"
    by (induction xs) auto
  moreover have "rc \<in> set xs \<Longrightarrow>
        length (filter (\<lambda>x. x \<notin> set (rc # visited)) xs)
        < length (filter (\<lambda>x. x \<notin> set visited) xs)" for xs :: "cell list"
  proof (induction xs)
    case Nil
    then show ?case by simp
  next
    case (Cons a xs)
    have le: "length (filter (\<lambda>x. x \<notin> set (rc # visited)) xs)
        \<le> length (filter (\<lambda>x. x \<notin> set visited) xs)"
      by (induction xs) auto
    show ?case
    proof (cases "a = rc")
      case True
      then show ?thesis using le assms(2) by simp
    next
      case False
      then show ?thesis using Cons by auto
    qed
  qed
  ultimately show ?thesis using mem by (simp add: unvisited_def)
qed

text \<open>
  Modelled from the spec: \<open>pcv.fill_holes\<close> belongs to the PlantCV library and is not
  among the sources. Sections 4.3 and 9: a flood fill with an explicit worklist and a
  visited set, started from the cells of the image boundary, collects the BACKGROUND
  cells that reach the boundary through BACKGROUND cells under 8-connectivity.
\<close>

function flood :: "mask \<Rightarrow> cell list \<Rightarrow> cell list \<Rightarrow> cell list" where
  "flood m [] visited = visited"
| "flood m (rc # work) visited =
     (if is_bg m rc \<and> rc \<notin> set visited
      then flood m (nbrs8 rc @ work) (rc # visited)
      else flood m work visited)"
  by pat_completeness auto
termination
  by (relation "inv_image (less_than <*lex*> less_than)
                  (\<lambda>(m, work, visited). (unvisited m visited, length work))")
     (auto simp: is_bg_def unvisited_less)

text \<open>
  Modelled from the spec: section 4.3. Every BACKGROUND component that does not touch
  the image boundary is relabelled FOREGROUND; the components that touch it, and every
  FOREGROUND cell, keep their label.
\<close>

definition fill_holes :: "mask \<Rightarrow> mask" where
  "fill_holes m =
     (let outside = flood m (border_cells m) []
      in imap (\<lambda>r row. imap (\<lambda>c v.
           if v = BACKGROUND \<and> (r, c) \<notin> set outside then FOREGROUND else v) row) m)"

text \<open>
  The BACKGROUND cells connected to the image boundary: the cells of the boundary that
  are BACKGROUND, and every BACKGROUND neighbour of such a cell.
\<close>

inductive_set reach :: "mask \<Rightarrow> cell set" for m :: mask where
  seed: "rc \<in> set (border_cells m) \<Longrightarrow> is_bg m rc \<Longrightarrow> rc \<in> reach m"
| step: "d \<in> reach m \<Longrightarrow> rc \<in> set (nbrs8 d) \<Longrightarrow> is_bg m rc \<Longrightarrow> rc \<in> reach m"

subsection \<open>The pipeline entry point\<close>

text \<open>
  \<open>gaussian_blur(img, channel="b")\<close>: the selector is \<open>None\<close> when the caller leaves
  the argument out. The handler of the \<open>try\<close> block prints the exception and raises it
  again.
\<close>

definition gaussian_blur :: "colorspaces \<Rightarrow> image \<Rightarrow> string option \<Rightarrow> mask io" where
  "gaussian_blur cs img channel_arg =
     (let channel = (case channel_arg of None \<Rightarrow> ''b'' | Some c \<Rightarrow> c) in
      try_except
        (bind
           (if channel \<in> set [''l'', ''a'', ''b'']
              then lift ''pcv.rgb2gray_lab'' (Inr (rgb2gray_lab cs img channel))
            else if channel \<in> set [''h'', ''s'', ''v'']
              then lift ''pcv.rgb2gray_hsv'' (Inr (rgb2gray_hsv cs img channel))
            else if channel \<in> set [''c'', ''m'', ''y'', ''k'']
              then lift ''pcv.rgb2gray_cmyk'' (Inr (rgb2gray_cmyk cs img channel))
            else raise (ValueError ''Invalid channel specified.''))
           (\<lambda>a_gray.
              bind (lift ''pcv.threshold.otsu'' (Inr (otsu a_gray LIGHT_IS_OBJECT)))
                (\<lambda>bin_mask.
                   bind (lift ''pcv.fill_holes'' (Inr (fill_holes bin_mask)))
                     (\<lambda>cleaned_mask. ret cleaned_mask))))
        (\<lambda>e. bind (emit (Printed (''Error in gaussian_blur: '' @ str_of e)))
                (\<lambda>_. raise e)))"

subsection \<open>Mask consumers\<close>

text \<open>
  The routines of PlantCV, OpenCV, matplotlib and the operating system that the program
  calls around the pipeline are not among the sources; they are the fields of a record
  of parameters, named after the routine: \<open>cv2.cvtColor\<close> with \<open>COLOR_BGR2GRAY\<close>,
  \<open>cv2.threshold\<close> with \<open>THRESH_BINARY\<close> (threshold and maximal value as arguments),
  \<open>os.makedirs\<close>, \<open>pcv.readimage\<close>, \<open>pcv.apply_mask\<close>, \<open>pcv.analyze.size\<close>,
  \<open>pcv.homology.x_axis_pseudolandmarks\<close>, \<open>pcv.analyze.color\<close> together with the
  lookup of the frequencies in \<open>pcv.outputs.observations\<close>, the plotting calls up to
  \<open>plt.savefig\<close>, \<open>pcv.print_image\<close>, \<open>os.path.isfile\<close>, \<open>os.path.isdir\<close> and
  \<open>os.listdir\<close>. A routine that may raise returns a sum.
\<close>

type_synonym landmarks = "(int \<times> int) list"

record drawing =
  canvas :: image
  pt1 :: "nat \<times> nat"
  pt2 :: "nat \<times> nat"
  color :: pixel
  thickness :: nat

datatype artifact = MaskArtifact mask | ImageArtifact image | DrawingArtifact drawing

record library =
  spaces :: colorspaces
  cvtColor_gray :: "image \<Rightarrow> gray"
  threshold_binary :: "gray \<Rightarrow> nat \<Rightarrow> nat \<Rightarrow> mask"
  makedirs :: "string \<Rightarrow> error + unit"
  readimage :: "string \<Rightarrow> error + image"
  apply_mask :: "image \<Rightarrow> mask \<Rightarrow> string \<Rightarrow> error + image"
  analyze_size :: "image \<Rightarrow> mask \<Rightarrow> error + image"
  x_axis_pseudolandmarks :: "image \<Rightarrow> mask \<Rightarrow> error + (landmarks \<times> landmarks \<times> landmarks)"
  analyze_color_frequencies :: "image \<Rightarrow> mask \<Rightarrow> error + (string \<times> nat list) list"
  savefig :: "string \<Rightarrow> error + unit"
  print_image :: "artifact \<Rightarrow> string \<Rightarrow> error + unit"
  isfile :: "string \<Rightarrow> bool"
  isdir :: "string \<Rightarrow> bool"
  listdir :: "string \<Rightarrow> string list"

text \<open>\<open>os.path.join\<close> of two components on a POSIX system.\<close>

definition os_path_join :: "string \<Rightarrow> string \<Rightarrow> string" where
  "os_path_join a b =
     (if take 1 b = ''/'' then b
      else if a = [] \<or> last a = CHR ''/'' then a @ b
      else a @ ''/'' @ b)"

definition mask_objects :: "library \<Rightarrow> image \<Rightarrow> mask \<Rightarrow> image io" where
  "mask_objects env img msk =
     bind (emit (MaskUsed ''pcv.apply_mask'' msk))
       (\<lambda>_. lift ''pcv.apply_mask'' (apply_mask env img msk ''white''))"

text \<open>
  \<open>remove_black\<close> computes a mask of its own, by \<open>cv2.threshold\<close> with the fixed
  threshold 20 on the grayscale conversion of the image.
\<close>

definition remove_black :: "library \<Rightarrow> image \<Rightarrow> image io" where
  "remove_black env img =
     bind (lift ''cv2.cvtColor'' (Inr (cvtColor_gray env img)))
       (\<lambda>gray_img.
          bind (lift ''cv2.threshold'' (Inr (threshold_binary env gray_img 20 255)))
            (\<lambda>msk.
               bind (emit (MaskUsed ''pcv.apply_mask'' msk))
                 (\<lambda>_. lift ''pcv.apply_mask'' (apply_mask env img msk ''white''))))"

text \<open>The cells of a mask that are not zero, in row-major order.\<close>

definition fg_cells :: "mask \<Rightarrow> cell list" where
  "fg_cells m = filter (\<lambda>rc. cell_at m rc = FOREGROUND) (cells m)"

text \<open>
  Modelled from the spec: \<open>cv2.boundingRect\<close> belongs to OpenCV and is not among the
  sources. Section 4.5: the minimal axis-aligned rectangle enclosing all FOREGROUND
  cells, returned as the source unpacks it: left column \<open>x\<close>, top row \<open>y\<close>, the
  number \<open>w\<close> of columns and the number \<open>h\<close> of rows it spans.
\<close>

definition boundingRect :: "mask \<Rightarrow> nat \<times> nat \<times> nat \<times> nat" where
  "boundingRect m =
     (case fg_cells m of
        [] \<Rightarrow> (0, 0, 0, 0)
      | rc # rcs \<Rightarrow>
          (let x0 = fold min (map snd rcs) (snd rc); x1 = fold max (map snd rcs) (snd rc);
               y0 = fold min (map fst rcs) (fst rc); y1 = fold max (map fst rcs) (fst rc)
           in (x0, y0, x1 - x0 + 1, y1 - y0 + 1)))"

text \<open>
  \<open>roi\<close>: the copy is recoloured where the mask is not zero (numpy refuses a boolean
  index of another shape); \<open>cv2.rectangle\<close> then receives the two corners that the
  source computes. The rasterisation of the outline is OpenCV's; the result records
  the canvas and the arguments of the call.
\<close>

definition roi :: "image \<Rightarrow> mask \<Rightarrow> drawing io" where
  "roi img msk =
     bind (emit (MaskUsed ''roi'' msk))
       (\<lambda>_.
          if map length msk \<noteq> map length img
          then raise (IndexError ''boolean index did not match indexed array'')
          else
            (let roi_image = imap (\<lambda>r row. imap (\<lambda>c p.
                   if cell_at msk (r, c) \<noteq> BACKGROUND then (0, 255, 0) else p) row) img
             in case boundingRect msk of (x, y, w, h) \<Rightarrow>
                  lift ''cv2.rectangle''
                    (Inr \<lparr>canvas = roi_image, pt1 = (x, y), pt2 = (x + w, y + h),
                          color = (255, 0, 0), thickness = 2\<rparr>)))"

definition analyze_object :: "library \<Rightarrow> image \<Rightarrow> mask \<Rightarrow> image io" where
  "analyze_object env img msk =
     bind (emit (MaskUsed ''pcv.analyze.size'' msk))
       (\<lambda>_. lift ''pcv.analyze.size'' (analyze_size env img msk))"

definition draw_circle :: "image \<Rightarrow> int \<times> int \<Rightarrow> int \<Rightarrow> pixel \<Rightarrow> image" where
  "draw_circle im center radius colour =
     imap (\<lambda>x row. imap (\<lambda>y p.
        if (int x - snd center) * (int x - snd center)
           + (int y - fst center) * (int y - fst center) \<le> radius * radius
        then colour else p) row) im"

definition create_pseudolandmarks_image :: "library \<Rightarrow> image \<Rightarrow> mask \<Rightarrow> image io" where
  "create_pseudolandmarks_image env im msk =
     bind (emit (MaskUsed ''pcv.homology.x_axis_pseudolandmarks'' msk))
       (\<lambda>_.
          bind (lift ''pcv.homology.x_axis_pseudolandmarks'' (x_axis_pseudolandmarks env im msk))
            (\<lambda>(top_x, bottom_x, center_v_x).
               ret (fold (\<lambda>(points, colour) pseudolandmarks.
                            fold (\<lambda>point acc. draw_circle acc point 5 colour) points pseudolandmarks)
                      (zip [top_x, bottom_x, center_v_x] [(0, 0, 255), (255, 0, 255), (255, 0, 0)])
                      im)))"

definition analyze_color :: "library \<Rightarrow> image \<Rightarrow> mask \<Rightarrow> string \<Rightarrow> unit io" where
  "analyze_color env img msk output =
     try_except
       (bind (emit (MaskUsed ''pcv.analyze.color'' msk))
          (\<lambda>_.
             bind (lift ''pcv.analyze.color'' (analyze_color_frequencies env img msk))
               (\<lambda>histograms.
                  write_file ''plt.savefig'' (os_path_join output ''color_histogram.png'')
                    (savefig env (os_path_join output ''color_histogram.png'')))))
       (\<lambda>e. bind (emit (Printed (''Error in analyze_color: '' @ str_of e)))
               (\<lambda>_. raise e))"

subsection \<open>Processing one image\<close>

text \<open>
  The chain of branches of \<open>process_image\<close> on the name of the transformation. A
  branch yields the result to be saved, or nothing when it returns from the function
  before the common tail.
\<close>

definition apply_transformation ::
  "library \<Rightarrow> image \<Rightarrow> string \<Rightarrow> string \<Rightarrow> artifact option io" where
  "apply_transformation env img output_dir transformation =
     (if transformation = ''gaussian_blur'' then
        bind (gaussian_blur (spaces env) img None)
          (\<lambda>result. ret (Some (MaskArtifact result)))
      else if transformation = ''mask_objects'' then
        bind (gaussian_blur (spaces env) img None)
          (\<lambda>msk. bind (mask_objects env img msk)
             (\<lambda>result. ret (Some (ImageArtifact result))))
      else if transformation = ''remove_black'' then
        bind (remove_black env img)
          (\<lambda>result. ret (Some (ImageArtifact result)))
      else if transformation = ''roi'' then
        bind (gaussian_blur (spaces env) img None)
          (\<lambda>msk. bind (roi img msk)
             (\<lambda>result. ret (Some (DrawingArtifact result))))
      else if transformation = ''analyze_object'' then
        bind (gaussian_blur (spaces env) img None)
          (\<lambda>msk. bind (analyze_object env img msk)
             (\<lambda>result. ret (Some (ImageArtifact result))))
      else if transformation = ''create_pseudolandmarks'' then
        bind (gaussian_blur (spaces env) img None)
          (\<lambda>msk. bind (create_pseudolandmarks_image env img msk)
             (\<lambda>result. ret (Some (ImageArtifact result))))
      else if transformation = ''analyze_color'' then
        bind (gaussian_blur (spaces env) img None)
          (\<lambda>msk. bind (analyze_color env img msk output_dir)
             (\<lambda>_. bind (emit (Printed ''Color analysis saved.''))
                (\<lambda>_. ret None)))
      else raise (ValueError ''Unsupported transformation selected.''))"

text \<open>
  The common tail: \<open>pcv.print_image\<close> writes the result to
  \<open>output_dir/transformation.png\<close> and the success is printed.
\<close>

definition save_result :: "library \<Rightarrow> string \<Rightarrow> string \<Rightarrow> artifact option \<Rightarrow> unit io" where
  "save_result env output_dir transformation saved =
     (case saved of
        None \<Rightarrow> ret ()
      | Some result \<Rightarrow>
          bind (write_file ''pcv.print_image''
                  (os_path_join output_dir (transformation @ ''.png''))
                  (print_image env result (os_path_join output_dir (transformation @ ''.png''))))
            (\<lambda>_. emit (Printed (transformation @ '' result saved in '' @ output_dir @ ''.''))))"

definition process_image :: "library \<Rightarrow> string \<Rightarrow> string \<Rightarrow> string \<Rightarrow> unit io" where
  "process_image env img_path output_dir transformation =
     try_except
       (bind (effect (Makedirs output_dir) (makedirs env output_dir))
          (\<lambda>_.
             bind (effect (Read img_path) (readimage env img_path))
               (\<lambda>img.
                  bind (apply_transformation env img output_dir transformation)
                    (save_result env output_dir transformation))))
       (\<lambda>e. bind (emit (Printed (''Error processing image: '' @ str_of e)))
               (\<lambda>_. raise e))"

subsection \<open>The command line driver\<close>

definition lower_char :: "char \<Rightarrow> char" where
  "lower_char c =
     (if 65 \<le> (of_char c :: nat) \<and> (of_char c :: nat) \<le> 90
      then char_of ((of_char c :: nat) + 32) else c)"

definition endswith :: "string \<Rightarrow> string \<Rightarrow> bool" where
  "endswith s suffix =
     (length suffix \<le> length s \<and> drop (length s - length suffix) s = suffix)"

definition is_image_name :: "string \<Rightarrow> bool" where
  "is_image_name file =
     (endswith (map lower_char file) ''jpg'' \<or> endswith (map lower_char file) ''jpeg''
      \<or> endswith (map lower_char file) ''png'')"

text \<open>
  The loop over \<open>os.listdir\<close>: the call of \<open>process_image\<close> stands in no \<open>try\<close>
  block, so an exception leaves the loop.
\<close>

fun process_dir :: "library \<Rightarrow> string \<Rightarrow> string \<Rightarrow> string \<Rightarrow> string list \<Rightarrow> unit io" where
  "process_dir env input output transformation [] = ret ()"
| "process_dir env input output transformation (file # files) =
     (if is_image_name file
      then bind (process_image env (os_path_join input file) output transformation)
             (\<lambda>_. process_dir env input output transformation files)
      else process_dir env input output transformation files)"

definition main :: "library \<Rightarrow> string \<Rightarrow> string \<Rightarrow> string \<Rightarrow> unit io" where
  "main env input output transformation =
     (if isfile env input then process_image env input output transformation
      else if isdir env input
        then process_dir env input output transformation (listdir env input)
      else emit (Printed ''Invalid input path. Provide an image or directory.''))"

subsection \<open>Sample inputs\<close>

text \<open>
  Concrete inputs on which the theorems below are instantiated: an image with one
  bright pixel, stand-ins for the colour conversions, and a library whose routines all
  succeed except that the file \<open>leaves/a.png\<close> cannot be read.
\<close>

definition sample_spaces :: colorspaces where
  "sample_spaces = \<lparr>lab = (\<lambda>p. p), hsv = (\<lambda>p. p), cmyk = (\<lambda>(b, g, r). (b, g, r, 0))\<rparr>"

definition sample_image :: image where
  "sample_image =
     [[(0, 0, 90), (0, 0, 90), (0, 0, 90)],
      [(0, 0, 90), (0, 0, 200), (0, 0, 90)],
      [(0, 0, 90), (0, 0, 90), (0, 0, 90)]]"

definition sample_library :: library where
  "sample_library =
     \<lparr>spaces = sample_spaces,
      cvtColor_gray = map (map (\<lambda>(b, g, r). (b + g + r) div 3)),
      threshold_binary =
        (\<lambda>g t maxval. map (map (\<lambda>v. if t < v then FOREGROUND else BACKGROUND)) g),
      makedirs = (\<lambda>d. Inr ()),
      readimage = (\<lambda>path. if path = ''leaves/a.png''
                          then Inl (LibraryError ''Failed to open leaves/a.png'')
                          else Inr sample_image),
      apply_mask = (\<lambda>img msk colour. Inr img),
      analyze_size = (\<lambda>img msk. Inr img),
      x_axis_pseudolandmarks = (\<lambda>img msk. Inr ([], [], [])),
      analyze_color_frequencies = (\<lambda>img msk. Inr []),
      savefig = (\<lambda>path. Inr ()),
      print_image = (\<lambda>result path. Inr ()),
      isfile = (\<lambda>path. path \<noteq> ''leaves''),
      isdir = (\<lambda>path. path = ''leaves''),
      listdir = (\<lambda>path. [''c.png'', ''a.png'', ''b.png''])\<rparr>"

section \<open>Properties\<close>

subsection \<open>The flood fill computes the cells connected to the boundary\<close>

lemma flood_keeps_visited: "set visited \<subseteq> set (flood m work visited)"
  by (induction m work visited rule: flood.induct) auto

lemma flood_takes_work:
  "rc \<in> set work \<Longrightarrow> is_bg m rc \<Longrightarrow> rc \<in> set (flood m work visited)"
proof (induction m work visited rule: flood.induct)
  case (1 m visited)
  then show ?case by simp
next
  case (2 m x work visited)
  show ?case
  proof (cases "is_bg m x \<and> x \<notin> set visited")
    case True
    have eq: "flood m (x # work) visited = flood m (nbrs8 x @ work) (x # visited)"
      using True by simp
    have "x \<in> set (flood m (nbrs8 x @ work) (x # visited))"
      using flood_keeps_visited [of "x # visited" m "nbrs8 x @ work"] by auto
    moreover have "rc \<in> set work \<Longrightarrow> rc \<in> set (flood m (nbrs8 x @ work) (x # visited))"
      using "2.IH"(1) [OF True] "2.prems"(2) by simp
    ultimately show ?thesis unfolding eq using "2.prems"(1) by auto
  next
    case False
    have eq: "flood m (x # work) visited = flood m work visited"
      using False by auto
    have vis: "set visited \<subseteq> set (flood m work visited)" by (rule flood_keeps_visited)
    show ?thesis
    proof (cases "rc = x")
      case True
      then have "x \<in> set visited" using False "2.prems"(2) by simp
      then show ?thesis unfolding eq using vis True by auto
    next
      case ne: False
      then have "rc \<in> set work" using "2.prems"(1) by simp
      then show ?thesis unfolding eq using "2.IH"(2) [OF False] "2.prems"(2) by simp
    qed
  qed
qed

lemma flood_only_bg:
  "\<forall>d \<in> set visited. is_bg m d \<Longrightarrow> \<forall>d \<in> set (flood m work visited). is_bg m d"
proof (induction m work visited rule: flood.induct)
  case (1 m visited)
  then show ?case by simp
next
  case (2 m x work visited)
  show ?case
  proof (cases "is_bg m x \<and> x \<notin> set visited")
    case True
    have eq: "flood m (x # work) visited = flood m (nbrs8 x @ work) (x # visited)"
      using True by simp
    have "\<forall>d \<in> set (x # visited). is_bg m d" using True "2.prems" by simp
    then show ?thesis unfolding eq by (rule "2.IH"(1) [OF True])
  next
    case False
    have eq: "flood m (x # work) visited = flood m work visited"
      using False by auto
    show ?thesis unfolding eq by (rule "2.IH"(2) [OF False "2.prems"])
  qed
qed

lemma flood_closed:
  "\<forall>d \<in> set visited. \<forall>rc \<in> set (nbrs8 d). is_bg m rc \<longrightarrow> rc \<in> set visited \<union> set work \<Longrightarrow>
   \<forall>d \<in> set (flood m work visited). \<forall>rc \<in> set (nbrs8 d).
      is_bg m rc \<longrightarrow> rc \<in> set (flood m work visited)"
proof (induction m work visited rule: flood.induct)
  case (1 m visited)
  then show ?case by simp
next
  case (2 m x work visited)
  show ?case
  proof (cases "is_bg m x \<and> x \<notin> set visited")
    case True
    have eq: "flood m (x # work) visited = flood m (nbrs8 x @ work) (x # visited)"
      using True by simp
    have "\<forall>d \<in> set (x # visited). \<forall>rc \<in> set (nbrs8 d).
            is_bg m rc \<longrightarrow> rc \<in> set (x # visited) \<union> set (nbrs8 x @ work)"
      using "2.prems" by auto
    then show ?thesis unfolding eq by (rule "2.IH"(1) [OF True])
  next
    case False
    have eq: "flood m (x # work) visited = flood m work visited"
      using False by auto
    have "\<forall>d \<in> set visited. \<forall>rc \<in> set (nbrs8 d).
            is_bg m rc \<longrightarrow> rc \<in> set visited \<union> set work"
      using "2.prems" False by auto
    then show ?thesis unfolding eq by (rule "2.IH"(2) [OF False])
  qed
qed

lemma flood_within:
  assumes "\<forall>d \<in> X. \<forall>rc \<in> set (nbrs8 d). is_bg m rc \<longrightarrow> rc \<in> X"
  shows "set visited \<subseteq> X \<Longrightarrow> \<forall>rc \<in> set work. is_bg m rc \<longrightarrow> rc \<in> X \<Longrightarrow>
         set (flood m work visited) \<subseteq> X"
  using assms
proof (induction m work visited rule: flood.induct)
  case (1 m visited)
  then show ?case by simp
next
  case (2 m x work visited)
  show ?case
  proof (cases "is_bg m x \<and> x \<notin> set visited")
    case True
    have eq: "flood m (x # work) visited = flood m (nbrs8 x @ work) (x # visited)"
      using True by simp
    have xX: "x \<in> X" using True "2.prems"(2) by simp
    have a: "set (x # visited) \<subseteq> X" using xX "2.prems"(1) by simp
    have b: "\<forall>rc \<in> set (nbrs8 x @ work). is_bg m rc \<longrightarrow> rc \<in> X"
      using xX "2.prems"(2,3) by auto
    show ?thesis unfolding eq by (rule "2.IH"(1) [OF True a b "2.prems"(3)])
  next
    case False
    have eq: "flood m (x # work) visited = flood m work visited"
      using False by auto
    have b: "\<forall>rc \<in> set work. is_bg m rc \<longrightarrow> rc \<in> X" using "2.prems"(2) by simp
    show ?thesis unfolding eq by (rule "2.IH"(2) [OF False "2.prems"(1) b "2.prems"(3)])
  qed
qed

lemma flood_reach: "set (flood m (border_cells m) []) = reach m"
proof
  have c: "\<forall>d \<in> reach m. \<forall>rc \<in> set (nbrs8 d). is_bg m rc \<longrightarrow> rc \<in> reach m"
    using reach.step by blast
  have s: "\<forall>rc \<in> set (border_cells m). is_bg m rc \<longrightarrow> rc \<in> reach m"
    using reach.seed by blast
  show "set (flood m (border_cells m) []) \<subseteq> reach m"
    by (rule flood_within [OF c _ s]) simp
next
  have closed: "\<forall>d \<in> set (flood m (border_cells m) []). \<forall>rc \<in> set (nbrs8 d).
      is_bg m rc \<longrightarrow> rc \<in> set (flood m (border_cells m) [])"
    by (rule flood_closed) simp
  show "reach m \<subseteq> set (flood m (border_cells m) [])"
  proof
    fix rc assume "rc \<in> reach m"
    then show "rc \<in> set (flood m (border_cells m) [])"
    proof (induction rule: reach.induct)
      case (seed rc)
      then show ?case by (simp add: flood_takes_work)
    next
      case (step d rc)
      then show ?case using closed by blast
    qed
  qed
qed

lemma reach_bg: "rc \<in> reach m \<Longrightarrow> is_bg m rc"
  by (erule reach.cases) simp_all


lemma fill_holes_length: "length (fill_holes m) = length m"
  by (simp add: fill_holes_def Let_def)

lemma fill_holes_row_length:
  "r < length m \<Longrightarrow> length (fill_holes m ! r) = length (m ! r)"
  by (simp add: fill_holes_def Let_def)

lemma fill_holes_in_grid: "in_grid (fill_holes m) rc = in_grid m rc"
  using fill_holes_row_length [of "fst rc" m]
  by (auto simp: in_grid_def fill_holes_length)

lemma fill_holes_cell:
  "in_grid m rc \<Longrightarrow>
   cell_at (fill_holes m) rc =
     (if cell_at m rc = BACKGROUND \<and> rc \<notin> set (flood m (border_cells m) [])
      then FOREGROUND else cell_at m rc)"
  by (cases rc) (simp add: in_grid_def cell_at_def fill_holes_def Let_def)

lemma imap_cong_length:
  "map length a = map length b \<Longrightarrow>
   imap (\<lambda>r row. h r (length row)) a = imap (\<lambda>r row. h r (length row)) b"
proof (rule nth_equalityI)
  assume eq: "map length a = map length b"
  then have len: "length a = length b" by (rule map_eq_imp_length_eq)
  then show "length (imap (\<lambda>r row. h r (length row)) a)
           = length (imap (\<lambda>r row. h r (length row)) b)" by simp
  fix i assume "i < length (imap (\<lambda>r row. h r (length row)) a)"
  then have i: "i < length a" by simp
  have "length (a ! i) = length (b ! i)"
    using eq i len by (metis nth_map)
  then show "imap (\<lambda>r row. h r (length row)) a ! i = imap (\<lambda>r row. h r (length row)) b ! i"
    using i len by simp
qed

lemma cells_shape:
  assumes "map length a = map length b"
  shows "cells a = cells b"
proof -
  have "imap (\<lambda>r row. map (\<lambda>c. (r, c)) [0 ..< length row]) a
      = imap (\<lambda>r row. map (\<lambda>c. (r, c)) [0 ..< length row]) b"
    by (rule imap_cong_length [OF assms, where h = "\<lambda>r n. map (\<lambda>c. (r, c)) [0 ..< n]"])
  then show ?thesis unfolding cells_def by (rule arg_cong)
qed

lemma border_cells_shape:
  assumes "map length a = map length b"
  shows "border_cells a = border_cells b"
proof -
  have len: "length a = length b" using assms by (rule map_eq_imp_length_eq)
  have "on_border a rc = on_border b rc" if "rc \<in> set (cells a)" for rc
  proof -
    have "fst rc < length a" using that by (simp add: in_cells in_grid_def)
    then have "length (a ! fst rc) = length (b ! fst rc)"
      using assms len by (metis nth_map)
    then show ?thesis by (simp add: on_border_def len)
  qed
  then have "filter (on_border a) (cells a) = filter (on_border b) (cells a)"
    by (simp cong: filter_cong)
  then show ?thesis by (simp add: border_cells_def cells_shape [OF assms])
qed

lemma fill_holes_shape: "map length (fill_holes m) = map length m"
  by (rule nth_equalityI) (simp_all add: fill_holes_length fill_holes_row_length)

lemma fill_holes_is_bg: "is_bg (fill_holes m) rc \<longleftrightarrow> rc \<in> reach m"
proof
  assume "is_bg (fill_holes m) rc"
  then have g: "in_grid m rc" and b: "cell_at (fill_holes m) rc = BACKGROUND"
    by (simp_all add: is_bg_def fill_holes_in_grid)
  from b show "rc \<in> reach m"
    unfolding fill_holes_cell [OF g] flood_reach by (simp split: if_splits)
next
  assume r: "rc \<in> reach m"
  then have bg: "is_bg m rc" by (rule reach_bg)
  then have g: "in_grid m rc" and b: "cell_at m rc = BACKGROUND"
    by (simp_all add: is_bg_def)
  show "is_bg (fill_holes m) rc"
    unfolding is_bg_def fill_holes_in_grid fill_holes_cell [OF g] flood_reach
    using g b r by simp
qed

lemma reach_fill_holes: "reach (fill_holes m) = reach m"
proof
  show "reach (fill_holes m) \<subseteq> reach m"
  proof
    fix rc assume "rc \<in> reach (fill_holes m)"
    then have "is_bg (fill_holes m) rc" by (rule reach_bg)
    then show "rc \<in> reach m" by (simp add: fill_holes_is_bg)
  qed
next
  have bc: "border_cells (fill_holes m) = border_cells m"
    by (rule border_cells_shape) (rule fill_holes_shape)
  show "reach m \<subseteq> reach (fill_holes m)"
  proof
    fix rc assume "rc \<in> reach m"
    then show "rc \<in> reach (fill_holes m)"
    proof (induction rule: reach.induct)
      case (seed rc)
      have "rc \<in> reach m" using seed by (rule reach.seed)
      then have "is_bg (fill_holes m) rc" by (simp add: fill_holes_is_bg)
      moreover have "rc \<in> set (border_cells (fill_holes m))" using seed(1) by (simp add: bc)
      ultimately show ?case by (rule reach.seed [rotated])
    next
      case (step d rc)
      have "rc \<in> reach m" using step(1,2,3) by (rule reach.step)
      then have "is_bg (fill_holes m) rc" by (simp add: fill_holes_is_bg)
      with step(4) step(2) show ?case by (rule reach.step)
    qed
  qed
qed

text \<open>
  C4. Filling the holes of a mask that has already been filled changes nothing:
  \<open>fill_holes (fill_holes m) = fill_holes m\<close> for every mask.
\<close>

theorem fill_holes_idempotent: "fill_holes (fill_holes m) = fill_holes m"
proof (rule nth_equalityI)
  show "length (fill_holes (fill_holes m)) = length (fill_holes m)"
    by (simp add: fill_holes_length)
next
  fix r assume "r < length (fill_holes (fill_holes m))"
  then have r: "r < length m" by (simp add: fill_holes_length)
  show "fill_holes (fill_holes m) ! r = fill_holes m ! r"
  proof (rule nth_equalityI)
    show "length (fill_holes (fill_holes m) ! r) = length (fill_holes m ! r)"
      using r by (simp add: fill_holes_row_length fill_holes_length)
  next
    fix c assume "c < length (fill_holes (fill_holes m) ! r)"
    then have c: "c < length (m ! r)"
      using r by (simp add: fill_holes_row_length fill_holes_length)
    have g: "in_grid m (r, c)" using r c by (simp add: in_grid_def)
    then have g': "in_grid (fill_holes m) (r, c)" by (simp add: fill_holes_in_grid)
    have "cell_at (fill_holes (fill_holes m)) (r, c) = cell_at (fill_holes m) (r, c)"
    proof (cases "cell_at (fill_holes m) (r, c) = BACKGROUND")
      case True
      then have "is_bg (fill_holes m) (r, c)" using g' by (simp add: is_bg_def)
      then have "(r, c) \<in> reach (fill_holes m)"
        by (simp add: fill_holes_is_bg reach_fill_holes)
      then show ?thesis
        unfolding fill_holes_cell [OF g'] flood_reach by simp
    next
      case False
      then show ?thesis unfolding fill_holes_cell [OF g'] by simp
    qed
    then show "fill_holes (fill_holes m) ! r ! c = fill_holes m ! r ! c"
      by (simp add: cell_at_def)
  qed
qed

theorem fill_holes_idempotent_witness:
  "fill_holes (fill_holes [[FOREGROUND, FOREGROUND, FOREGROUND],
                           [FOREGROUND, BACKGROUND, FOREGROUND],
                           [FOREGROUND, FOREGROUND, FOREGROUND]])
   = fill_holes [[FOREGROUND, FOREGROUND, FOREGROUND],
                 [FOREGROUND, BACKGROUND, FOREGROUND],
                 [FOREGROUND, FOREGROUND, FOREGROUND]]"
  by (rule fill_holes_idempotent)

subsection \<open>Hole filling\<close>

text \<open>
  C3. Every cell labelled FOREGROUND in a mask is still a cell of the filled mask and is
  still labelled FOREGROUND there: hole filling never removes foreground.
\<close>

theorem fill_holes_keeps_foreground:
  assumes "in_grid m rc" and "cell_at m rc = FOREGROUND"
  shows "in_grid (fill_holes m) rc \<and> cell_at (fill_holes m) rc = FOREGROUND"
proof -
  have "in_grid (fill_holes m) rc" using assms(1) by (simp add: fill_holes_in_grid)
  moreover have "cell_at (fill_holes m) rc = FOREGROUND"
    unfolding fill_holes_cell [OF assms(1)] using assms(2) by simp
  ultimately show ?thesis ..
qed

theorem fill_holes_keeps_foreground_witness:
  "in_grid [[FOREGROUND, FOREGROUND, FOREGROUND],
            [FOREGROUND, BACKGROUND, FOREGROUND],
            [FOREGROUND, FOREGROUND, FOREGROUND]] (0, 2)
   \<and> cell_at (fill_holes [[FOREGROUND, FOREGROUND, FOREGROUND],
                            [FOREGROUND, BACKGROUND, FOREGROUND],
                            [FOREGROUND, FOREGROUND, FOREGROUND]]) (0, 2) = FOREGROUND"
proof -
  let ?m = "[[FOREGROUND, FOREGROUND, FOREGROUND],
             [FOREGROUND, BACKGROUND, FOREGROUND],
             [FOREGROUND, FOREGROUND, FOREGROUND]]"
  have g: "in_grid ?m (0, 2)" by (simp add: in_grid_def)
  have f: "cell_at ?m (0, 2) = FOREGROUND" by (simp add: cell_at_def)
  show ?thesis using g fill_holes_keeps_foreground [OF g f] by simp
qed

subsection \<open>The entry point\<close>

lemma gaussian_blur_lab:
  assumes "channel \<in> set [''l'', ''a'', ''b'']"
  shows "gaussian_blur cs img (Some channel) =
     (Inr (fill_holes (otsu (rgb2gray_lab cs img channel) LIGHT_IS_OBJECT)),
      [Called ''pcv.rgb2gray_lab'', Called ''pcv.threshold.otsu'', Called ''pcv.fill_holes''])"
  using assms
  by (simp add: gaussian_blur_def try_except_def bind_def lift_def effect_def ret_def)

lemma gaussian_blur_hsv:
  assumes "channel \<in> set [''h'', ''s'', ''v'']"
  shows "gaussian_blur cs img (Some channel) =
     (Inr (fill_holes (otsu (rgb2gray_hsv cs img channel) LIGHT_IS_OBJECT)),
      [Called ''pcv.rgb2gray_hsv'', Called ''pcv.threshold.otsu'', Called ''pcv.fill_holes''])"
proof -
  have "channel \<notin> set [''l'', ''a'', ''b'']" using assms by auto
  then show ?thesis using assms
    by (simp add: gaussian_blur_def try_except_def bind_def lift_def effect_def ret_def)
qed

lemma gaussian_blur_cmyk:
  assumes "channel \<in> set [''c'', ''m'', ''y'', ''k'']"
  shows "gaussian_blur cs img (Some channel) =
     (Inr (fill_holes (otsu (rgb2gray_cmyk cs img channel) LIGHT_IS_OBJECT)),
      [Called ''pcv.rgb2gray_cmyk'', Called ''pcv.threshold.otsu'', Called ''pcv.fill_holes''])"
proof -
  have "channel \<notin> set [''l'', ''a'', ''b'']" and "channel \<notin> set [''h'', ''s'', ''v'']"
    using assms by auto
  then show ?thesis using assms
    by (simp add: gaussian_blur_def try_except_def bind_def lift_def effect_def ret_def)
qed

lemma gaussian_blur_default:
  "gaussian_blur cs img None = gaussian_blur cs img (Some ''b'')"
  by (simp add: gaussian_blur_def)

lemma otsu_light:
  "otsu_threshold (concat g) = Some t \<Longrightarrow>
   otsu g LIGHT_IS_OBJECT = map (map (\<lambda>v. if t \<le> v then FOREGROUND else BACKGROUND)) g"
  by (simp add: otsu_def)

text \<open>
  C1. For a recognised selector the entry point returns the composition, in this
  order, of the projection onto the selected channel of its colorspace family (Lab for
  l, a, b; HSV for h, s, v; CMYK for c, m, y, k), the Otsu thresholding with the light
  class as object, and the hole filling. A call without selector is the call with
  selector b. With the light class as object a pixel is FOREGROUND exactly when its
  intensity is at or above the computed threshold.
\<close>

theorem gaussian_blur_composes:
  "(channel \<in> set [''l'', ''a'', ''b''] \<longrightarrow>
      fst (gaussian_blur cs img (Some channel))
        = Inr (fill_holes (otsu (rgb2gray_lab cs img channel) LIGHT_IS_OBJECT)))
   \<and> (channel \<in> set [''h'', ''s'', ''v''] \<longrightarrow>
      fst (gaussian_blur cs img (Some channel))
        = Inr (fill_holes (otsu (rgb2gray_hsv cs img channel) LIGHT_IS_OBJECT)))
   \<and> (channel \<in> set [''c'', ''m'', ''y'', ''k''] \<longrightarrow>
      fst (gaussian_blur cs img (Some channel))
        = Inr (fill_holes (otsu (rgb2gray_cmyk cs img channel) LIGHT_IS_OBJECT)))
   \<and> gaussian_blur cs img None = gaussian_blur cs img (Some ''b'')
   \<and> (otsu_threshold (concat g) = Some t \<longrightarrow>
      otsu g LIGHT_IS_OBJECT = map (map (\<lambda>v. if t \<le> v then FOREGROUND else BACKGROUND)) g)"
proof (intro conjI impI)
  assume "channel \<in> set [''l'', ''a'', ''b'']"
  then show "fst (gaussian_blur cs img (Some channel))
        = Inr (fill_holes (otsu (rgb2gray_lab cs img channel) LIGHT_IS_OBJECT))"
    by (simp only: gaussian_blur_lab fst_conv)
next
  assume "channel \<in> set [''h'', ''s'', ''v'']"
  then show "fst (gaussian_blur cs img (Some channel))
        = Inr (fill_holes (otsu (rgb2gray_hsv cs img channel) LIGHT_IS_OBJECT))"
    by (simp only: gaussian_blur_hsv fst_conv)
next
  assume "channel \<in> set [''c'', ''m'', ''y'', ''k'']"
  then show "fst (gaussian_blur cs img (Some channel))
        = Inr (fill_holes (otsu (rgb2gray_cmyk cs img channel) LIGHT_IS_OBJECT))"
    by (simp only: gaussian_blur_cmyk fst_conv)
next
  show "gaussian_blur cs img None = gaussian_blur cs img (Some ''b'')"
    by (rule gaussian_blur_default)
next
  assume "otsu_threshold (concat g) = Some t"
  then show "otsu g LIGHT_IS_OBJECT = map (map (\<lambda>v. if t \<le> v then FOREGROUND else BACKGROUND)) g"
    by (rule otsu_light)
qed

lemma sample_gray:
  "rgb2gray_lab sample_spaces sample_image ''b'' = [[90, 90, 90], [90, 200, 90], [90, 90, 90]]"
  by (simp add: rgb2gray_lab_def sample_spaces_def sample_image_def)

lemma sample_threshold: "otsu_threshold (concat [[90, 90, 90], [90, 200, 90], [90, 90, 90]]) = Some 200"
  by code_simp

lemma sample_mask:
  "fill_holes [[BACKGROUND, BACKGROUND, BACKGROUND],
               [BACKGROUND, FOREGROUND, BACKGROUND],
               [BACKGROUND, BACKGROUND, BACKGROUND]]
   = [[BACKGROUND, BACKGROUND, BACKGROUND],
      [BACKGROUND, FOREGROUND, BACKGROUND],
      [BACKGROUND, BACKGROUND, BACKGROUND]]"
  by code_simp

theorem gaussian_blur_composes_witness:
  "fst (gaussian_blur sample_spaces sample_image None)
     = Inr [[BACKGROUND, BACKGROUND, BACKGROUND],
            [BACKGROUND, FOREGROUND, BACKGROUND],
            [BACKGROUND, BACKGROUND, BACKGROUND]]"
proof -
  have c: "''b'' \<in> set [''l'', ''a'', ''b'']" by simp
  note th = gaussian_blur_composes
    [of "''b''" sample_spaces sample_image "[[90, 90, 90], [90, 200, 90], [90, 90, 90]]" 200]
  have a: "fst (gaussian_blur sample_spaces sample_image (Some ''b''))
        = Inr (fill_holes (otsu (rgb2gray_lab sample_spaces sample_image ''b'') LIGHT_IS_OBJECT))"
    using th c by blast
  have d: "gaussian_blur sample_spaces sample_image None
         = gaussian_blur sample_spaces sample_image (Some ''b'')"
    using th by blast
  have o: "otsu [[90, 90, 90], [90, 200, 90], [90, 90, 90]] LIGHT_IS_OBJECT
         = map (map (\<lambda>v. if 200 \<le> v then FOREGROUND else BACKGROUND))
             [[90 :: nat, 90, 90], [90, 200, 90], [90, 90, 90]]"
    using th sample_threshold by blast
  show ?thesis
    unfolding d a sample_gray o by (simp add: sample_mask)
qed

text \<open>
  C2. With a selector that is none of the ten recognised codes the entry point fails,
  for every image, with the error \<open>Invalid channel specified.\<close>; the trace holds the
  printed report only, so no colorspace routine has been entered, and the caller
  receives the very error that was raised.
\<close>

theorem gaussian_blur_rejects_unknown_channel:
  assumes "channel \<notin> set [''l'', ''a'', ''b'', ''h'', ''s'', ''v'', ''c'', ''m'', ''y'', ''k'']"
  shows "gaussian_blur cs img (Some channel) =
     (Inl (ValueError ''Invalid channel specified.''),
      [Printed ''Error in gaussian_blur: Invalid channel specified.''])"
  using assms
  by (simp add: gaussian_blur_def try_except_def bind_def raise_def emit_def)

theorem gaussian_blur_rejects_unknown_channel_witness:
  "gaussian_blur sample_spaces sample_image (Some ''z'') =
     (Inl (ValueError ''Invalid channel specified.''),
      [Printed ''Error in gaussian_blur: Invalid channel specified.''])"
  by (rule gaussian_blur_rejects_unknown_channel) simp


lemma grid_height_shape: "height g = length (map length g)"
  by (simp add: height_def)

lemma grid_width_shape: "width g = (case map length g of [] \<Rightarrow> 0 | n # _ \<Rightarrow> n)"
  by (cases g) (simp_all add: width_def)

lemma rgb2gray_lab_shape: "map length (rgb2gray_lab cs img channel) = map length img"
  by (simp add: rgb2gray_lab_def)

lemma rgb2gray_hsv_shape: "map length (rgb2gray_hsv cs img channel) = map length img"
  by (simp add: rgb2gray_hsv_def)

lemma rgb2gray_cmyk_shape: "map length (rgb2gray_cmyk cs img channel) = map length img"
  by (simp add: rgb2gray_cmyk_def)

lemma otsu_shape: "map length (otsu g object_type) = map length g"
  by (simp add: otsu_def split: option.splits)

lemma gaussian_blur_shape:
  assumes "fst (gaussian_blur cs img channel_arg) = Inr m"
  shows "map length m = map length img"
proof -
  define channel where "channel = (case channel_arg of None \<Rightarrow> ''b'' | Some c \<Rightarrow> c)"
  have eq: "gaussian_blur cs img channel_arg = gaussian_blur cs img (Some channel)"
    by (simp add: gaussian_blur_def channel_def)
  consider (lab) "channel \<in> set [''l'', ''a'', ''b'']"
    | (hsv) "channel \<in> set [''h'', ''s'', ''v'']"
    | (cmyk) "channel \<in> set [''c'', ''m'', ''y'', ''k'']"
    | (other) "channel \<notin> set [''l'', ''a'', ''b'', ''h'', ''s'', ''v'', ''c'', ''m'', ''y'', ''k'']"
    by auto
  then show ?thesis
  proof cases
    case lab
    then have "m = fill_holes (otsu (rgb2gray_lab cs img channel) LIGHT_IS_OBJECT)"
      using assms unfolding eq by (simp only: gaussian_blur_lab fst_conv sum.inject)
    then show ?thesis by (simp add: fill_holes_shape otsu_shape rgb2gray_lab_shape)
  next
    case hsv
    then have "m = fill_holes (otsu (rgb2gray_hsv cs img channel) LIGHT_IS_OBJECT)"
      using assms unfolding eq by (simp only: gaussian_blur_hsv fst_conv sum.inject)
    then show ?thesis by (simp add: fill_holes_shape otsu_shape rgb2gray_hsv_shape)
  next
    case cmyk
    then have "m = fill_holes (otsu (rgb2gray_cmyk cs img channel) LIGHT_IS_OBJECT)"
      using assms unfolding eq by (simp only: gaussian_blur_cmyk fst_conv sum.inject)
    then show ?thesis by (simp add: fill_holes_shape otsu_shape rgb2gray_cmyk_shape)
  next
    case other
    then have "fst (gaussian_blur cs img (Some channel)) = Inl (ValueError ''Invalid channel specified.'')"
      by (simp add: gaussian_blur_def try_except_def bind_def raise_def emit_def)
    then show ?thesis using assms unfolding eq by simp
  qed
qed

text \<open>
  C5. Whenever the entry point returns a mask, the mask has the height and the width of
  the input image (row by row, the same number of cells).
\<close>

theorem gaussian_blur_preserves_dimensions:
  assumes "fst (gaussian_blur cs img channel_arg) = Inr m"
  shows "height m = height img \<and> width m = width img \<and> map length m = map length img"
  using gaussian_blur_shape [OF assms]
  by (simp add: grid_height_shape grid_width_shape)

theorem gaussian_blur_preserves_dimensions_witness:
  "fst (gaussian_blur sample_spaces sample_image (Some ''b''))
     = Inr [[BACKGROUND, BACKGROUND, BACKGROUND],
            [BACKGROUND, FOREGROUND, BACKGROUND],
            [BACKGROUND, BACKGROUND, BACKGROUND]]
   \<and> height [[BACKGROUND, BACKGROUND, BACKGROUND],
              [BACKGROUND, FOREGROUND, BACKGROUND],
              [BACKGROUND, BACKGROUND, BACKGROUND]] = height sample_image
   \<and> width [[BACKGROUND, BACKGROUND, BACKGROUND],
             [BACKGROUND, FOREGROUND, BACKGROUND],
             [BACKGROUND, BACKGROUND, BACKGROUND]] = width sample_image"
proof -
  have r: "fst (gaussian_blur sample_spaces sample_image (Some ''b''))
     = Inr [[BACKGROUND, BACKGROUND, BACKGROUND],
            [BACKGROUND, FOREGROUND, BACKGROUND],
            [BACKGROUND, BACKGROUND, BACKGROUND]]"
    by (simp add: gaussian_blur_lab sample_gray otsu_light [OF sample_threshold] sample_mask)
  show ?thesis using r gaussian_blur_preserves_dimensions [OF r] by simp
qed

lemma uniform_split_empty:
  assumes "set vs \<subseteq> {c}"
  shows "lower vs t = [] \<or> upper vs t = []"
proof (cases "c < t")
  case True
  then have "upper vs t = []" using assms by (auto simp: upper_def filter_empty_conv)
  then show ?thesis ..
next
  case False
  then have "lower vs t = []" using assms by (auto simp: lower_def filter_empty_conv)
  then show ?thesis ..
qed

lemma uniform_separation:
  assumes "set vs \<subseteq> {c}"
  shows "separation vs t = (0, 1)"
  using uniform_split_empty [OF assms, of t]
  by (auto simp: separation_def Let_def)

lemma uniform_scan:
  assumes "set vs \<subseteq> {c}"
  shows "otsu_scan vs ts None = None"
  by (induction ts) (simp_all add: uniform_separation [OF assms] better_def)

lemma uniform_threshold: "set vs \<subseteq> {c} \<Longrightarrow> otsu_threshold vs = None"
  by (simp add: otsu_threshold_def uniform_scan)

text \<open>
  The degenerate case of the thresholder: no split of a buffer whose pixels all have
  the same intensity separates two classes, and every cell becomes BACKGROUND.
\<close>

lemma otsu_uniform_all_background:
  assumes "set (concat g) \<subseteq> {c}"
  shows "otsu g LIGHT_IS_OBJECT = map (map (\<lambda>v. BACKGROUND)) g
         \<and> (\<forall>rc. in_grid g rc \<longrightarrow>
               in_grid (otsu g LIGHT_IS_OBJECT) rc
               \<and> cell_at (otsu g LIGHT_IS_OBJECT) rc = BACKGROUND)"
proof -
  have eq: "otsu g LIGHT_IS_OBJECT = map (map (\<lambda>v. BACKGROUND)) g"
    by (simp add: otsu_def uniform_threshold [OF assms])
  show ?thesis unfolding eq by (simp add: in_grid_def cell_at_def)
qed

lemma otsu_uniform_example:
  "set (concat [[7, 7], [7, 7 :: nat]]) \<subseteq> {7}
   \<and> otsu [[7, 7], [7, 7]] LIGHT_IS_OBJECT
       = [[BACKGROUND, BACKGROUND], [BACKGROUND, BACKGROUND]]"
proof -
  have u: "set (concat [[7, 7], [7, 7 :: nat]]) \<subseteq> {7}" by simp
  show ?thesis using u otsu_uniform_all_background [OF u] by simp
qed

subsection \<open>Traces of composed calls\<close>

lemma try_reraise:
  "try_except m (\<lambda>e. bind (emit (Printed (p e))) (\<lambda>_. raise e)) =
     (case m of (Inl e, t) \<Rightarrow> (Inl e, t @ [Printed (p e)]) | (Inr x, t) \<Rightarrow> (Inr x, t))"
  by (simp add: try_except_def bind_def emit_def raise_def split: prod.splits sum.splits)

lemma fst_bind: "fst (bind m f) = (case fst m of Inl e \<Rightarrow> Inl e | Inr x \<Rightarrow> fst (f x))"
  by (simp add: bind_def split: prod.splits sum.splits)

lemma snd_bind: "snd (bind m f) = (case fst m of Inl e \<Rightarrow> snd m | Inr x \<Rightarrow> snd m @ snd (f x))"
  by (simp add: bind_def split: prod.splits sum.splits)

lemma bind_ok:
  assumes "fst (bind m f) = Inr y"
  obtains x where "fst m = Inr x" and "fst (f x) = Inr y"
  using assms by (auto simp: fst_bind split: sum.splits)

lemma bind_trace_cases:
  assumes "ev \<in> set (snd (bind m f))"
  obtains (first) "ev \<in> set (snd m)"
    | (rest) x where "fst m = Inr x" and "ev \<in> set (snd (f x))"
  using assms by (auto simp: snd_bind split: sum.splits)

lemma try_reraise_ok:
  assumes "fst (try_except m (\<lambda>e. bind (emit (Printed (p e))) (\<lambda>_. raise e))) = Inr y"
  shows "try_except m (\<lambda>e. bind (emit (Printed (p e))) (\<lambda>_. raise e)) = m"
  using assms unfolding try_reraise by (auto split: prod.splits sum.splits)

lemma try_reraise_failed:
  assumes "fst (try_except m (\<lambda>e. bind (emit (Printed (p e))) (\<lambda>_. raise e))) = Inl e"
  shows "snd (try_except m (\<lambda>e. bind (emit (Printed (p e))) (\<lambda>_. raise e)))
           = snd m @ [Printed (p e)]"
  using assms unfolding try_reraise by (auto split: prod.splits sum.splits)

lemma try_reraise_trace_cases:
  assumes "ev \<in> set (snd (try_except m (\<lambda>e. bind (emit (Printed (p e))) (\<lambda>_. raise e))))"
  obtains (body) "ev \<in> set (snd m)" | (report) e where "ev = Printed (p e)"
  using assms unfolding try_reraise by (auto split: prod.splits sum.splits)

lemma write_file_success:
  "fst (write_file name path r) = Inr u \<Longrightarrow> Written path \<in> set (snd (write_file name path r))"
  by (cases r) (simp_all add: write_file_def)

lemma gaussian_blur_none:
  "gaussian_blur cs img None =
     (Inr (fill_holes (otsu (rgb2gray_lab cs img ''b'') LIGHT_IS_OBJECT)),
      [Called ''pcv.rgb2gray_lab'', Called ''pcv.threshold.otsu'', Called ''pcv.fill_holes''])"
  by (simp add: gaussian_blur_default gaussian_blur_lab)

lemma process_image_event_cases:
  assumes "ev \<in> set (snd (process_image env img_path output_dir t))"
  obtains (makedirs) "ev = Makedirs output_dir"
    | (read) "ev = Read img_path"
    | (report) e where "ev = Printed (''Error processing image: '' @ str_of e)"
    | (transform) img where "readimage env img_path = Inr img"
        and "ev \<in> set (snd (apply_transformation env img output_dir t))"
    | (save) img saved where "readimage env img_path = Inr img"
        and "fst (apply_transformation env img output_dir t) = Inr saved"
        and "ev \<in> set (snd (save_result env output_dir t saved))"
  using assms unfolding process_image_def
proof (cases rule: try_reraise_trace_cases)
  case body
  then show ?thesis
  proof (cases rule: bind_trace_cases)
    case first
    then show ?thesis using makedirs by (simp add: effect_def)
  next
    case (rest u)
    from rest(2) show ?thesis
    proof (cases rule: bind_trace_cases)
      case first
      then show ?thesis using read by (simp add: effect_def)
    next
      case (rest img)
      from rest(1) have r: "readimage env img_path = Inr img" by (simp add: effect_def)
      from rest(2) show ?thesis
      proof (cases rule: bind_trace_cases)
        case first
        then show ?thesis using transform r by blast
      next
        case (rest saved)
        then show ?thesis using save r by blast
      qed
    qed
  qed
next
  case (report e)
  then show ?thesis using that(3) by blast
qed

lemma process_image_failure_reported:
  assumes "fst (process_image env img_path output_dir t) = Inl e"
  shows "\<exists>tr. snd (process_image env img_path output_dir t)
           = tr @ [Printed (''Error processing image: '' @ str_of e)]"
  using try_reraise_failed [OF assms [unfolded process_image_def]]
  unfolding process_image_def by blast

lemma analyze_color_trace:
  "analyze_color env img msk output =
     (case analyze_color_frequencies env img msk of
        Inl e \<Rightarrow> (Inl e, [MaskUsed ''pcv.analyze.color'' msk, Called ''pcv.analyze.color'',
                           Printed (''Error in analyze_color: '' @ str_of e)])
      | Inr h \<Rightarrow>
          (case savefig env (os_path_join output ''color_histogram.png'') of
             Inl e \<Rightarrow> (Inl e, [MaskUsed ''pcv.analyze.color'' msk, Called ''pcv.analyze.color'',
                                Called ''plt.savefig'',
                                Printed (''Error in analyze_color: '' @ str_of e)])
           | Inr u \<Rightarrow> (Inr (), [MaskUsed ''pcv.analyze.color'' msk, Called ''pcv.analyze.color'',
                                Called ''plt.savefig'',
                                Written (os_path_join output ''color_histogram.png'')])))"
  unfolding analyze_color_def try_reraise
  by (simp add: bind_def emit_def lift_def effect_def write_file_def split: sum.splits)

lemma apply_transformation_analyze_color:
  "apply_transformation env img output_dir ''analyze_color'' =
     (case analyze_color env img
             (fill_holes (otsu (rgb2gray_lab (spaces env) img ''b'') LIGHT_IS_OBJECT)) output_dir of
        (Inl e, tr) \<Rightarrow>
          (Inl e, [Called ''pcv.rgb2gray_lab'', Called ''pcv.threshold.otsu'',
                   Called ''pcv.fill_holes''] @ tr)
      | (Inr u, tr) \<Rightarrow>
          (Inr None, [Called ''pcv.rgb2gray_lab'', Called ''pcv.threshold.otsu'',
                      Called ''pcv.fill_holes''] @ tr @ [Printed ''Color analysis saved.'']))"
  unfolding apply_transformation_def gaussian_blur_none
  by (simp add: bind_def emit_def ret_def split: sum.splits prod.splits)

lemma apply_transformation_some:
  assumes "t \<in> set [''gaussian_blur'', ''mask_objects'', ''remove_black'', ''roi'',
                     ''analyze_object'', ''create_pseudolandmarks'']"
    and "fst (apply_transformation env img output_dir t) = Inr saved"
  shows "saved \<noteq> None"
  using assms unfolding apply_transformation_def
  by (auto simp: fst_bind ret_def split: sum.splits)

lemma process_image_saved:
  assumes t: "t \<in> set [''gaussian_blur'', ''mask_objects'', ''remove_black'', ''roi'',
                        ''analyze_object'', ''create_pseudolandmarks'']"
    and ok: "fst (process_image env img_path output_dir t) = Inr ()"
  shows "Written (os_path_join output_dir (t @ ''.png''))
           \<in> set (snd (process_image env img_path output_dir t))"
proof -
  let ?tail = "save_result env output_dir t"
  let ?body = "bind (effect (Makedirs output_dir) (makedirs env output_dir))
          (\<lambda>_. bind (effect (Read img_path) (readimage env img_path))
               (\<lambda>img. bind (apply_transformation env img output_dir t) ?tail))"
  have eq: "process_image env img_path output_dir t = ?body"
    unfolding process_image_def using ok [unfolded process_image_def] by (rule try_reraise_ok)
  from ok have b: "fst ?body = Inr ()" unfolding eq .
  from b obtain u where a: "fst (effect (Makedirs output_dir) (makedirs env output_dir)) = Inr u"
    and b1: "fst (bind (effect (Read img_path) (readimage env img_path))
               (\<lambda>img. bind (apply_transformation env img output_dir t) ?tail)) = Inr ()"
    by (rule bind_ok)
  from b1 obtain img where i: "fst (effect (Read img_path) (readimage env img_path)) = Inr img"
    and b2: "fst (bind (apply_transformation env img output_dir t) ?tail) = Inr ()"
    by (rule bind_ok)
  from b2 obtain saved where c: "fst (apply_transformation env img output_dir t) = Inr saved"
    and b3: "fst (?tail saved) = Inr ()"
    by (rule bind_ok)
  from apply_transformation_some [OF t c] obtain result where s: "saved = Some result" by auto
  let ?path = "os_path_join output_dir (t @ ''.png'')"
  from b3 obtain v where
    "fst (write_file ''pcv.print_image'' ?path (print_image env result ?path)) = Inr v"
    unfolding s save_result_def by (auto elim: bind_ok)
  then have "Written ?path \<in> set (snd (write_file ''pcv.print_image'' ?path (print_image env result ?path)))"
    by (rule write_file_success)
  then have "Written ?path \<in> set (snd (?tail saved))"
    by (simp add: s save_result_def snd_bind split: sum.splits)
  then have "Written ?path \<in> set (snd (bind (apply_transformation env img output_dir t) ?tail))"
    using c by (simp add: snd_bind)
  then have "Written ?path \<in> set (snd (bind (effect (Read img_path) (readimage env img_path))
               (\<lambda>img. bind (apply_transformation env img output_dir t) ?tail)))"
    using i by (simp add: snd_bind)
  then have "Written ?path \<in> set (snd ?body)" using a by (simp add: snd_bind)
  then show ?thesis unfolding eq .
qed

lemma join_names_differ:
  "os_path_join output_dir ''analyze_color.png'' \<noteq> os_path_join output_dir ''color_histogram.png''"
  by (simp add: os_path_join_def)

lemma analyze_color_events:
  assumes "ev \<in> set (snd (process_image env img_path output_dir ''analyze_color''))"
  shows "ev \<noteq> Called ''pcv.print_image''
         \<and> (\<forall>p. ev = Written p \<longrightarrow> p = os_path_join output_dir ''color_histogram.png'')"
  using assms
proof (cases rule: process_image_event_cases)
  case (transform img)
  then show ?thesis
    unfolding apply_transformation_analyze_color analyze_color_trace
    by (auto split: sum.splits)
next
  case (save img saved)
  from save(2) have "saved = None"
    unfolding apply_transformation_analyze_color by (auto split: sum.splits prod.splits)
  then show ?thesis using save(3) by (simp add: save_result_def ret_def)
qed simp_all

lemma analyze_color_success:
  assumes "fst (process_image env img_path output_dir ''analyze_color'') = Inr ()"
  shows "Written (os_path_join output_dir ''color_histogram.png'')
           \<in> set (snd (process_image env img_path output_dir ''analyze_color''))"
proof -
  let ?tail = "save_result env output_dir ''analyze_color''"
  let ?body = "bind (effect (Makedirs output_dir) (makedirs env output_dir))
          (\<lambda>_. bind (effect (Read img_path) (readimage env img_path))
               (\<lambda>img. bind (apply_transformation env img output_dir ''analyze_color'') ?tail))"
  have eq: "process_image env img_path output_dir ''analyze_color'' = ?body"
    unfolding process_image_def using assms [unfolded process_image_def] by (rule try_reraise_ok)
  from assms have b: "fst ?body = Inr ()" unfolding eq .
  from b obtain u where a: "fst (effect (Makedirs output_dir) (makedirs env output_dir)) = Inr u"
    and b1: "fst (bind (effect (Read img_path) (readimage env img_path))
               (\<lambda>img. bind (apply_transformation env img output_dir ''analyze_color'') ?tail)) = Inr ()"
    by (rule bind_ok)
  from b1 obtain img where i: "fst (effect (Read img_path) (readimage env img_path)) = Inr img"
    and b2: "fst (bind (apply_transformation env img output_dir ''analyze_color'') ?tail) = Inr ()"
    by (rule bind_ok)
  from b2 obtain saved where
    c: "fst (apply_transformation env img output_dir ''analyze_color'') = Inr saved"
    by (rule bind_ok)
  have "Written (os_path_join output_dir ''color_histogram.png'')
          \<in> set (snd (apply_transformation env img output_dir ''analyze_color''))"
    using c unfolding apply_transformation_analyze_color analyze_color_trace
    by (auto split: sum.splits)
  then have "Written (os_path_join output_dir ''color_histogram.png'')
          \<in> set (snd (bind (apply_transformation env img output_dir ''analyze_color'') ?tail))"
    by (auto simp: snd_bind split: sum.splits)
  then have "Written (os_path_join output_dir ''color_histogram.png'')
          \<in> set (snd (bind (effect (Read img_path) (readimage env img_path))
               (\<lambda>img. bind (apply_transformation env img output_dir ''analyze_color'') ?tail)))"
    using i by (simp add: snd_bind)
  then have "Written (os_path_join output_dir ''color_histogram.png'') \<in> set (snd ?body)"
    using a by (simp add: snd_bind)
  then show ?thesis unfolding eq .
qed

text \<open>
  C10. For the transformation \<open>analyze_color\<close> the only file that \<open>process_image\<close>
  ever writes is \<open>color_histogram.png\<close> in the output directory, and a successful run
  writes it: the function returns before the common tail, so \<open>pcv.print_image\<close> is not
  called and no \<open>analyze_color.png\<close> is written. Every other supported transformation
  that succeeds writes its result image \<open>transformation.png\<close> to the same directory.
\<close>

theorem analyze_color_writes_histogram_only:
  "(\<forall>p. Written p \<in> set (snd (process_image env img_path output_dir ''analyze_color''))
        \<longrightarrow> p = os_path_join output_dir ''color_histogram.png'')
   \<and> Written (os_path_join output_dir ''analyze_color.png'')
        \<notin> set (snd (process_image env img_path output_dir ''analyze_color''))
   \<and> Called ''pcv.print_image''
        \<notin> set (snd (process_image env img_path output_dir ''analyze_color''))
   \<and> (fst (process_image env img_path output_dir ''analyze_color'') = Inr ()
        \<longrightarrow> Written (os_path_join output_dir ''color_histogram.png'')
              \<in> set (snd (process_image env img_path output_dir ''analyze_color'')))
   \<and> (t \<in> set [''gaussian_blur'', ''mask_objects'', ''remove_black'', ''roi'',
                 ''analyze_object'', ''create_pseudolandmarks'']
        \<and> fst (process_image env img_path output_dir t) = Inr ()
        \<longrightarrow> Written (os_path_join output_dir (t @ ''.png''))
              \<in> set (snd (process_image env img_path output_dir t)))"
proof -
  have only: "p = os_path_join output_dir ''color_histogram.png''"
    if "Written p \<in> set (snd (process_image env img_path output_dir ''analyze_color''))" for p
    using analyze_color_events [OF that] by simp
  have no_print: "Called ''pcv.print_image''
        \<notin> set (snd (process_image env img_path output_dir ''analyze_color''))"
    using analyze_color_events by blast
  have not_result: "Written (os_path_join output_dir ''analyze_color.png'')
        \<notin> set (snd (process_image env img_path output_dir ''analyze_color''))"
    using only join_names_differ by blast
  show ?thesis
    using only no_print not_result analyze_color_success process_image_saved by blast
qed

subsection \<open>Runs over a directory\<close>

lemma bind_ret: "bind (ret x) f = f x"
  by (simp add: bind_def ret_def split: prod.splits)

lemma bind_assoc: "bind (bind m f) g = bind m (\<lambda>x. bind (f x) g)"
  by (simp add: bind_def split: prod.splits sum.splits)

lemma process_dir_append:
  "process_dir env input output t (pre @ rest) =
     bind (process_dir env input output t pre) (\<lambda>_. process_dir env input output t rest)"
  by (induction pre) (simp_all add: bind_ret bind_assoc)

lemma process_dir_all_ok:
  assumes "\<forall>g \<in> set pre. is_image_name g \<longrightarrow>
             fst (process_image env (os_path_join input g) output t) = Inr ()"
  shows "fst (process_dir env input output t pre) = Inr ()"
  using assms by (induction pre) (simp_all add: ret_def fst_bind)

text \<open>
  C7, as the code has it. In a run over a directory the images listed before the first
  failing one are processed; the failure of an image is printed by \<open>process_image\<close> and
  raised again, and since the loop of \<open>main\<close> catches nothing the run ends there with
  that error: the trace of the run is the trace of the images before the failing one
  followed by the trace of the failing one, whatever files are listed after it.
\<close>

theorem batch_run_stops_at_first_failure:
  assumes "\<not> isfile env input" and "isdir env input"
    and "listdir env input = pre @ file # post"
    and "\<forall>g \<in> set pre. is_image_name g \<longrightarrow>
           fst (process_image env (os_path_join input g) output t) = Inr ()"
    and "is_image_name file"
    and "fst (process_image env (os_path_join input file) output t) = Inl e"
  shows "fst (main env input output t) = Inl e
     \<and> snd (main env input output t)
         = snd (process_dir env input output t pre)
           @ snd (process_image env (os_path_join input file) output t)
     \<and> (\<exists>tr. snd (process_image env (os_path_join input file) output t)
            = tr @ [Printed (''Error processing image: '' @ str_of e)])"
proof -
  have m: "main env input output t = process_dir env input output t (pre @ file # post)"
    using assms(1,2,3) by (simp add: main_def)
  have pre: "fst (process_dir env input output t pre) = Inr ()"
    using assms(4) by (rule process_dir_all_ok)
  have f: "process_dir env input output t (file # post)
         = (Inl e, snd (process_image env (os_path_join input file) output t))"
  proof -
    obtain tr where p: "process_image env (os_path_join input file) output t = (Inl e, tr)"
      using assms(6) by (cases "process_image env (os_path_join input file) output t") simp
    show ?thesis using assms(5) by (simp add: p bind_def)
  qed
  have "fst (main env input output t) = Inl e"
    unfolding m process_dir_append using pre f by (simp add: fst_bind)
  moreover have "snd (main env input output t)
         = snd (process_dir env input output t pre)
           @ snd (process_image env (os_path_join input file) output t)"
    unfolding m process_dir_append using pre f by (simp add: snd_bind)
  ultimately show ?thesis
    using process_image_failure_reported [OF assms(6)] by blast
qed

lemma sample_join:
  "os_path_join ''leaves'' ''a.png'' = ''leaves/a.png''"
  "os_path_join ''leaves'' ''b.png'' = ''leaves/b.png''"
  "os_path_join ''leaves'' ''c.png'' = ''leaves/c.png''"
  "os_path_join ''out'' ''gaussian_blur.png'' = ''out/gaussian_blur.png''"
  by (simp_all add: os_path_join_def)

lemma sample_names: "is_image_name ''a.png''" "is_image_name ''b.png''" "is_image_name ''c.png''"
  by (simp_all add: is_image_name_def endswith_def lower_char_def)

lemma sample_failure:
  "process_image sample_library ''leaves/a.png'' ''out'' ''gaussian_blur'' =
     (Inl (LibraryError ''Failed to open leaves/a.png''),
      [Makedirs ''out'', Read ''leaves/a.png'',
       Printed ''Error processing image: Failed to open leaves/a.png''])"
  unfolding process_image_def try_reraise
  by (simp add: sample_library_def bind_def effect_def)

lemma sample_success:
  "path \<noteq> ''leaves/a.png'' \<Longrightarrow>
   process_image sample_library path ''out'' ''gaussian_blur'' =
     (Inr (),
      [Makedirs ''out'', Read path, Called ''pcv.rgb2gray_lab'', Called ''pcv.threshold.otsu'',
       Called ''pcv.fill_holes'', Called ''pcv.print_image'', Written ''out/gaussian_blur.png'',
       Printed ''gaussian_blur result saved in out.''])"
  unfolding process_image_def try_reraise apply_transformation_def save_result_def gaussian_blur_none
  by (simp add: sample_library_def bind_def effect_def ret_def write_file_def emit_def sample_join)

text \<open>
  The claim C7 as the specification states it (a failing image is skipped and its
  siblings are still processed) fails on the directory \<open>leaves\<close> of the sample library:
  \<open>c.png\<close> is processed, \<open>a.png\<close> cannot be read, and \<open>b.png\<close>, which would be
  processed successfully on its own, is never read.
\<close>

theorem batch_run_aborts_example:
  "listdir sample_library ''leaves'' = [''c.png'', ''a.png'', ''b.png'']
   \<and> is_image_name ''b.png''
   \<and> fst (process_image sample_library (os_path_join ''leaves'' ''b.png'') ''out'' ''gaussian_blur'')
       = Inr ()
   \<and> fst (main sample_library ''leaves'' ''out'' ''gaussian_blur'')
       = Inl (LibraryError ''Failed to open leaves/a.png'')
   \<and> Read ''leaves/c.png'' \<in> set (snd (main sample_library ''leaves'' ''out'' ''gaussian_blur''))
   \<and> Read ''leaves/a.png'' \<in> set (snd (main sample_library ''leaves'' ''out'' ''gaussian_blur''))
   \<and> Read (os_path_join ''leaves'' ''b.png'')
       \<notin> set (snd (main sample_library ''leaves'' ''out'' ''gaussian_blur''))"
proof -
  have l: "listdir sample_library ''leaves'' = [''c.png'', ''a.png'', ''b.png'']"
    by (simp add: sample_library_def)
  have d: "\<not> isfile sample_library ''leaves''" "isdir sample_library ''leaves''"
    by (simp_all add: sample_library_def)
  have m: "main sample_library ''leaves'' ''out'' ''gaussian_blur'' =
        (Inl (LibraryError ''Failed to open leaves/a.png''),
         [Makedirs ''out'', Read ''leaves/c.png'', Called ''pcv.rgb2gray_lab'',
          Called ''pcv.threshold.otsu'', Called ''pcv.fill_holes'', Called ''pcv.print_image'',
          Written ''out/gaussian_blur.png'', Printed ''gaussian_blur result saved in out.'',
          Makedirs ''out'', Read ''leaves/a.png'',
          Printed ''Error processing image: Failed to open leaves/a.png''])"
    unfolding main_def l
    by (simp add: d sample_names sample_join sample_failure sample_success bind_def)
  show ?thesis unfolding m using l sample_names(2)
    by (simp add: sample_join sample_success)
qed

theorem batch_run_stops_at_first_failure_witness:
  "fst (main sample_library ''leaves'' ''out'' ''gaussian_blur'')
     = Inl (LibraryError ''Failed to open leaves/a.png'')
   \<and> snd (main sample_library ''leaves'' ''out'' ''gaussian_blur'')
     = snd (process_dir sample_library ''leaves'' ''out'' ''gaussian_blur'' [''c.png''])
       @ snd (process_image sample_library (os_path_join ''leaves'' ''a.png'') ''out'' ''gaussian_blur'')"
proof -
  have 1: "\<not> isfile sample_library ''leaves''" and 2: "isdir sample_library ''leaves''"
    and 3: "listdir sample_library ''leaves'' = [''c.png''] @ ''a.png'' # [''b.png'']"
    by (simp_all add: sample_library_def)
  have 4: "\<forall>g \<in> set [''c.png'']. is_image_name g \<longrightarrow>
      fst (process_image sample_library (os_path_join ''leaves'' g) ''out'' ''gaussian_blur'') = Inr ()"
    by (simp add: sample_join sample_success)
  have 6: "fst (process_image sample_library (os_path_join ''leaves'' ''a.png'') ''out'' ''gaussian_blur'')
        = Inl (LibraryError ''Failed to open leaves/a.png'')"
    by (simp add: sample_join sample_failure)
  show ?thesis
    using batch_run_stops_at_first_failure [OF 1 2 3 4 sample_names(1) 6] by blast
qed

subsection \<open>The masks of the consumers\<close>

lemma mask_objects_events:
  "ev \<in> set (snd (mask_objects env img msk)) \<Longrightarrow>
   ev = MaskUsed ''pcv.apply_mask'' msk \<or> ev = Called ''pcv.apply_mask''"
  by (auto simp: mask_objects_def bind_def emit_def lift_def effect_def split: sum.splits)

lemma roi_events:
  "ev \<in> set (snd (roi img msk)) \<Longrightarrow>
   ev = MaskUsed ''roi'' msk \<or> ev = Called ''cv2.rectangle''"
  by (auto simp: roi_def bind_def emit_def lift_def effect_def raise_def Let_def
           split: sum.splits prod.splits if_splits)

lemma analyze_object_events:
  "ev \<in> set (snd (analyze_object env img msk)) \<Longrightarrow>
   ev = MaskUsed ''pcv.analyze.size'' msk \<or> ev = Called ''pcv.analyze.size''"
  by (auto simp: analyze_object_def bind_def emit_def lift_def effect_def split: sum.splits)

lemma create_pseudolandmarks_image_events:
  "ev \<in> set (snd (create_pseudolandmarks_image env img msk)) \<Longrightarrow>
   ev = MaskUsed ''pcv.homology.x_axis_pseudolandmarks'' msk
   \<or> ev = Called ''pcv.homology.x_axis_pseudolandmarks''"
  by (auto simp: create_pseudolandmarks_image_def bind_def emit_def lift_def effect_def ret_def
           split: sum.splits prod.splits)

lemma analyze_color_consumer_events:
  "ev \<in> set (snd (analyze_color env img msk output)) \<Longrightarrow>
   ev = MaskUsed ''pcv.analyze.color'' msk \<or> ev = Called ''pcv.analyze.color''
   \<or> ev = Called ''plt.savefig'' \<or> ev = Written (os_path_join output ''color_histogram.png'')
   \<or> (\<exists>e. ev = Printed (''Error in analyze_color: '' @ str_of e))"
  unfolding analyze_color_trace by (auto split: sum.splits)

lemma remove_black_events:
  "ev \<in> set (snd (remove_black env img)) \<Longrightarrow>
   ev = Called ''cv2.cvtColor'' \<or> ev = Called ''cv2.threshold''
   \<or> ev = MaskUsed ''pcv.apply_mask'' (threshold_binary env (cvtColor_gray env img) 20 255)
   \<or> ev = Called ''pcv.apply_mask''"
  by (auto simp: remove_black_def bind_def emit_def lift_def effect_def split: sum.splits)

lemma gaussian_blur_none_events:
  "ev \<in> set (snd (gaussian_blur cs img None)) \<Longrightarrow>
   ev = Called ''pcv.rgb2gray_lab'' \<or> ev = Called ''pcv.threshold.otsu''
   \<or> ev = Called ''pcv.fill_holes''"
  by (auto simp: gaussian_blur_none)

lemma after_pipeline_events:
  assumes "ev \<in> set (snd (bind (gaussian_blur cs img None) (\<lambda>msk. bind (c msk) k)))"
    and "\<And>x. snd (k x) = [] \<or> (\<exists>s. snd (k x) = [Printed s])"
  shows "ev \<in> set (snd (gaussian_blur cs img None))
     \<or> ev \<in> set (snd (c (fill_holes (otsu (rgb2gray_lab cs img ''b'') LIGHT_IS_OBJECT))))
     \<or> (\<exists>s. ev = Printed s)"
  using assms(1)
proof (cases rule: bind_trace_cases)
  case first
  then show ?thesis by simp
next
  case (rest msk)
  from rest(1) have m: "msk = fill_holes (otsu (rgb2gray_lab cs img ''b'') LIGHT_IS_OBJECT)"
    by (simp add: gaussian_blur_none)
  from rest(2) show ?thesis
  proof (cases rule: bind_trace_cases)
    case first
    then show ?thesis using m by simp
  next
    case (rest x)
    then show ?thesis using assms(2) [of x] by auto
  qed
qed

lemma apply_transformation_events:
  assumes "ev \<in> set (snd (apply_transformation env img output_dir t))"
  shows "(t \<noteq> ''remove_black'' \<longrightarrow>
            ev \<noteq> Called ''cv2.threshold''
            \<and> (\<forall>n k. ev = MaskUsed n k \<longrightarrow> fst (gaussian_blur (spaces env) img None) = Inr k))
       \<and> (t = ''remove_black'' \<longrightarrow>
            ev \<noteq> Called ''pcv.threshold.otsu''
            \<and> (\<forall>n k. ev = MaskUsed n k \<longrightarrow>
                   k = threshold_binary env (cvtColor_gray env img) 20 255))"
proof -
  let ?m = "fill_holes (otsu (rgb2gray_lab (spaces env) img ''b'') LIGHT_IS_OBJECT)"
  have g: "fst (gaussian_blur (spaces env) img None) = Inr ?m" by (simp add: gaussian_blur_none)
  consider (gb) "t = ''gaussian_blur''" | (mo) "t = ''mask_objects''" | (rb) "t = ''remove_black''"
    | (roi) "t = ''roi''" | (ao) "t = ''analyze_object''" | (cp) "t = ''create_pseudolandmarks''"
    | (ac) "t = ''analyze_color''"
    | (other) "t \<notin> set [''gaussian_blur'', ''mask_objects'', ''remove_black'', ''roi'',
                          ''analyze_object'', ''create_pseudolandmarks'', ''analyze_color'']"
    by auto
  then show ?thesis
  proof cases
    case gb
    with assms have "ev \<in> set (snd (bind (gaussian_blur (spaces env) img None)
        (\<lambda>result. ret (Some (MaskArtifact result)))))"
      by (simp add: apply_transformation_def)
    then have "ev \<in> set (snd (gaussian_blur (spaces env) img None))"
      by (auto elim!: bind_trace_cases simp: ret_def)
    then show ?thesis using gb by (auto dest: gaussian_blur_none_events)
  next
    case mo
    with assms have "ev \<in> set (snd (bind (gaussian_blur (spaces env) img None)
        (\<lambda>msk. bind (mask_objects env img msk) (\<lambda>result. ret (Some (ImageArtifact result))))))"
      by (simp add: apply_transformation_def)
    then have "ev \<in> set (snd (gaussian_blur (spaces env) img None))
        \<or> ev \<in> set (snd (mask_objects env img ?m)) \<or> (\<exists>s. ev = Printed s)"
      by (rule after_pipeline_events) (simp add: ret_def)
    then show ?thesis using mo g
      by (auto dest: gaussian_blur_none_events mask_objects_events)
  next
    case rb
    with assms have "ev \<in> set (snd (bind (remove_black env img)
        (\<lambda>result. ret (Some (ImageArtifact result)))))"
      by (simp add: apply_transformation_def)
    then have "ev \<in> set (snd (remove_black env img))"
      by (auto elim!: bind_trace_cases simp: ret_def)
    then show ?thesis using rb by (auto dest: remove_black_events)
  next
    case roi
    with assms have "ev \<in> set (snd (bind (gaussian_blur (spaces env) img None)
        (\<lambda>msk. bind (roi img msk) (\<lambda>result. ret (Some (DrawingArtifact result))))))"
      by (simp add: apply_transformation_def)
    then have "ev \<in> set (snd (gaussian_blur (spaces env) img None))
        \<or> ev \<in> set (snd (roi img ?m)) \<or> (\<exists>s. ev = Printed s)"
      by (rule after_pipeline_events) (simp add: ret_def)
    then show ?thesis using roi g
      by (auto dest: gaussian_blur_none_events roi_events)
  next
    case ao
    with assms have "ev \<in> set (snd (bind (gaussian_blur (spaces env) img None)
        (\<lambda>msk. bind (analyze_object env img msk) (\<lambda>result. ret (Some (ImageArtifact result))))))"
      by (simp add: apply_transformation_def)
    then have "ev \<in> set (snd (gaussian_blur (spaces env) img None))
        \<or> ev \<in> set (snd (analyze_object env img ?m)) \<or> (\<exists>s. ev = Printed s)"
      by (rule after_pipeline_events) (simp add: ret_def)
    then show ?thesis using ao g
      by (auto dest: gaussian_blur_none_events analyze_object_events)
  next
    case cp
    with assms have "ev \<in> set (snd (bind (gaussian_blur (spaces env) img None)
        (\<lambda>msk. bind (create_pseudolandmarks_image env img msk)
           (\<lambda>result. ret (Some (ImageArtifact result))))))"
      by (simp add: apply_transformation_def)
    then have "ev \<in> set (snd (gaussian_blur (spaces env) img None))
        \<or> ev \<in> set (snd (create_pseudolandmarks_image env img ?m)) \<or> (\<exists>s. ev = Printed s)"
      by (rule after_pipeline_events) (simp add: ret_def)
    then show ?thesis using cp g
      by (auto dest: gaussian_blur_none_events create_pseudolandmarks_image_events)
  next
    case ac
    with assms have "ev \<in> set (snd (bind (gaussian_blur (spaces env) img None)
        (\<lambda>msk. bind (analyze_color env img msk output_dir)
           (\<lambda>_. bind (emit (Printed ''Color analysis saved.''))
              (\<lambda>_. ret (None :: artifact option))))))"
      by (simp add: apply_transformation_def)
    then have "ev \<in> set (snd (gaussian_blur (spaces env) img None))
        \<or> ev \<in> set (snd ((\<lambda>msk. analyze_color env img msk output_dir) ?m)) \<or> (\<exists>s. ev = Printed s)"
      by (rule after_pipeline_events) (simp add: ret_def bind_def emit_def)
    then show ?thesis using ac g
      by (auto dest: gaussian_blur_none_events analyze_color_consumer_events)
  next
    case other
    with assms show ?thesis by (simp add: apply_transformation_def raise_def)
  qed
qed

lemma save_result_events:
  "ev \<in> set (snd (save_result env output_dir t saved)) \<Longrightarrow>
   ev = Called ''pcv.print_image'' \<or> (\<exists>p. ev = Written p) \<or> (\<exists>s. ev = Printed s)"
  by (auto simp: save_result_def ret_def bind_def write_file_def emit_def
           split: option.splits sum.splits)

text \<open>
  C6, as the code has it. Under every transformation other than \<open>remove_black\<close> each
  mask handed to a downstream consumer is the mask that \<open>gaussian_blur\<close> returns for
  the image read, and \<open>cv2.threshold\<close> is never called. \<open>remove_black\<close> is the
  exception: it never enters the Otsu thresholding of the pipeline, and the mask it
  hands to \<open>pcv.apply_mask\<close> is the result of the fixed threshold 20 on the grayscale
  conversion of the image.
\<close>

theorem consumers_and_their_masks:
  assumes "ev \<in> set (snd (process_image env img_path output_dir t))"
  shows "(t \<noteq> ''remove_black'' \<longrightarrow>
            ev \<noteq> Called ''cv2.threshold''
            \<and> (\<forall>n k. ev = MaskUsed n k \<longrightarrow>
                   (\<exists>img. readimage env img_path = Inr img
                      \<and> fst (gaussian_blur (spaces env) img None) = Inr k)))
       \<and> (t = ''remove_black'' \<longrightarrow>
            ev \<noteq> Called ''pcv.threshold.otsu''
            \<and> (\<forall>n k. ev = MaskUsed n k \<longrightarrow>
                   (\<exists>img. readimage env img_path = Inr img
                      \<and> k = threshold_binary env (cvtColor_gray env img) 20 255)))"
  using assms
proof (cases rule: process_image_event_cases)
  case (transform img)
  then show ?thesis using apply_transformation_events [OF transform(2)] by blast
next
  case (save img saved)
  then show ?thesis using save_result_events [OF save(3)] by auto
qed simp_all

subsection \<open>The sample run\<close>

lemma sample_pipeline:
  "gaussian_blur sample_spaces sample_image None =
     (Inr [[BACKGROUND, BACKGROUND, BACKGROUND],
           [BACKGROUND, FOREGROUND, BACKGROUND],
           [BACKGROUND, BACKGROUND, BACKGROUND]],
      [Called ''pcv.rgb2gray_lab'', Called ''pcv.threshold.otsu'', Called ''pcv.fill_holes''])"
  by (simp add: gaussian_blur_none sample_gray otsu_light [OF sample_threshold] sample_mask)

lemma sample_read: "readimage sample_library ''leaf.png'' = Inr sample_image"
  by (simp add: sample_library_def)

lemma sample_mask_objects:
  "process_image sample_library ''leaf.png'' ''out'' ''mask_objects'' =
     (Inr (),
      [Makedirs ''out'', Read ''leaf.png'', Called ''pcv.rgb2gray_lab'',
       Called ''pcv.threshold.otsu'', Called ''pcv.fill_holes'',
       MaskUsed ''pcv.apply_mask'' [[BACKGROUND, BACKGROUND, BACKGROUND],
                                   [BACKGROUND, FOREGROUND, BACKGROUND],
                                   [BACKGROUND, BACKGROUND, BACKGROUND]],
       Called ''pcv.apply_mask'', Called ''pcv.print_image'', Written ''out/mask_objects.png'',
       Printed ''mask_objects result saved in out.''])"
proof -
  have s: "spaces sample_library = sample_spaces" by (simp add: sample_library_def)
  show ?thesis
    unfolding process_image_def try_reraise apply_transformation_def save_result_def
      mask_objects_def
    by (simp add: sample_read s sample_pipeline bind_def effect_def lift_def ret_def
          write_file_def emit_def os_path_join_def)
       (simp add: sample_library_def)
qed

lemma sample_remove_black:
  "process_image sample_library ''leaf.png'' ''out'' ''remove_black'' =
     (Inr (),
      [Makedirs ''out'', Read ''leaf.png'', Called ''cv2.cvtColor'', Called ''cv2.threshold'',
       MaskUsed ''pcv.apply_mask'' [[FOREGROUND, FOREGROUND, FOREGROUND],
                                   [FOREGROUND, FOREGROUND, FOREGROUND],
                                   [FOREGROUND, FOREGROUND, FOREGROUND]],
       Called ''pcv.apply_mask'', Called ''pcv.print_image'', Written ''out/remove_black.png'',
       Printed ''remove_black result saved in out.''])"
proof -
  show ?thesis
    unfolding process_image_def try_reraise apply_transformation_def save_result_def
      remove_black_def
    by (simp add: sample_read bind_def effect_def lift_def ret_def
          write_file_def emit_def os_path_join_def)
       (simp add: sample_library_def sample_image_def)
qed

theorem consumers_and_their_masks_witness:
  "MaskUsed ''pcv.apply_mask'' [[BACKGROUND, BACKGROUND, BACKGROUND],
                               [BACKGROUND, FOREGROUND, BACKGROUND],
                               [BACKGROUND, BACKGROUND, BACKGROUND]]
     \<in> set (snd (process_image sample_library ''leaf.png'' ''out'' ''mask_objects''))
   \<and> fst (gaussian_blur (spaces sample_library) sample_image None)
       = Inr [[BACKGROUND, BACKGROUND, BACKGROUND],
              [BACKGROUND, FOREGROUND, BACKGROUND],
              [BACKGROUND, BACKGROUND, BACKGROUND]]"
proof -
  let ?k = "[[BACKGROUND, BACKGROUND, BACKGROUND],
             [BACKGROUND, FOREGROUND, BACKGROUND],
             [BACKGROUND, BACKGROUND, BACKGROUND]]"
  have ev: "MaskUsed ''pcv.apply_mask'' ?k
     \<in> set (snd (process_image sample_library ''leaf.png'' ''out'' ''mask_objects''))"
    by (simp add: sample_mask_objects)
  have "\<exists>img. readimage sample_library ''leaf.png'' = Inr img
          \<and> fst (gaussian_blur (spaces sample_library) img None) = Inr ?k"
    using consumers_and_their_masks [OF ev] by simp
  then show ?thesis using ev by (simp add: sample_read)
qed

text \<open>
  The claim C6 as the specification states it (no transformation thresholds on its
  own) fails for \<open>remove_black\<close> on the sample image: the consumer receives the mask
  of the fixed threshold, in which every cell is FOREGROUND, while the pipeline's mask
  of the same image has a single FOREGROUND cell.
\<close>

theorem remove_black_thresholds_itself:
  "readimage sample_library ''leaf.png'' = Inr sample_image
   \<and> fst (gaussian_blur (spaces sample_library) sample_image None)
       = Inr [[BACKGROUND, BACKGROUND, BACKGROUND],
              [BACKGROUND, FOREGROUND, BACKGROUND],
              [BACKGROUND, BACKGROUND, BACKGROUND]]
   \<and> MaskUsed ''pcv.apply_mask'' [[FOREGROUND, FOREGROUND, FOREGROUND],
                                  [FOREGROUND, FOREGROUND, FOREGROUND],
                                  [FOREGROUND, FOREGROUND, FOREGROUND]]
       \<in> set (snd (process_image sample_library ''leaf.png'' ''out'' ''remove_black''))
   \<and> Called ''cv2.threshold''
       \<in> set (snd (process_image sample_library ''leaf.png'' ''out'' ''remove_black''))
   \<and> Called ''pcv.threshold.otsu''
       \<notin> set (snd (process_image sample_library ''leaf.png'' ''out'' ''remove_black''))"
proof -
  have s: "spaces sample_library = sample_spaces" by (simp add: sample_library_def)
  show ?thesis by (simp add: sample_read s sample_pipeline sample_remove_black)
qed

lemma sample_analyze_color:
  "fst (process_image sample_library ''leaf.png'' ''out'' ''analyze_color'') = Inr ()"
  unfolding process_image_def try_reraise apply_transformation_analyze_color analyze_color_trace
    save_result_def
  by (simp add: sample_read bind_def effect_def ret_def)
     (simp add: sample_library_def)

theorem analyze_color_writes_histogram_only_witness:
  "fst (process_image sample_library ''leaf.png'' ''out'' ''analyze_color'') = Inr ()
   \<and> Written ''out/color_histogram.png''
       \<in> set (snd (process_image sample_library ''leaf.png'' ''out'' ''analyze_color''))
   \<and> Written ''out/analyze_color.png''
       \<notin> set (snd (process_image sample_library ''leaf.png'' ''out'' ''analyze_color''))
   \<and> fst (process_image sample_library ''leaf.png'' ''out'' ''mask_objects'') = Inr ()
   \<and> Written ''out/mask_objects.png''
       \<in> set (snd (process_image sample_library ''leaf.png'' ''out'' ''mask_objects''))"
proof -
  have j: "os_path_join ''out'' ''color_histogram.png'' = ''out/color_histogram.png''"
    "os_path_join ''out'' ''analyze_color.png'' = ''out/analyze_color.png''"
    "os_path_join ''out'' (''mask_objects'' @ ''.png'') = ''out/mask_objects.png''"
    by (simp_all add: os_path_join_def)
  have ok: "fst (process_image sample_library ''leaf.png'' ''out'' ''mask_objects'') = Inr ()"
    by (simp add: sample_mask_objects)
  have t: "''mask_objects'' \<in> set [''gaussian_blur'', ''mask_objects'', ''remove_black'', ''roi'',
                 ''analyze_object'', ''create_pseudolandmarks'']" by simp
  note th = analyze_color_writes_histogram_only
    [of sample_library "''leaf.png''" "''out''" "''mask_objects''", unfolded j]
  show ?thesis using th sample_analyze_color ok t by blast
qed

text \<open>
  \<open>roi\<close> on the sample image and the mask that the pipeline returns for it, whose
  only FOREGROUND cell lies in row 1, column 1: the cell is recoloured on the copy, and
  \<open>cv2.rectangle\<close> receives the corners \<open>(1, 1)\<close> and \<open>(2, 2)\<close>, the rectangle of
  one column and one row that starts at that cell.
\<close>

lemma roi_sample_single_cell:
  "roi sample_image [[BACKGROUND, BACKGROUND, BACKGROUND],
                     [BACKGROUND, FOREGROUND, BACKGROUND],
                     [BACKGROUND, BACKGROUND, BACKGROUND]]
   = (Inr \<lparr>canvas = [[(0, 0, 90), (0, 0, 90), (0, 0, 90)],
                     [(0, 0, 90), (0, 255, 0), (0, 0, 90)],
                     [(0, 0, 90), (0, 0, 90), (0, 0, 90)]],
           pt1 = (1, 1), pt2 = (2, 2), color = (255, 0, 0), thickness = 2\<rparr>,
      [MaskUsed ''roi'' [[BACKGROUND, BACKGROUND, BACKGROUND],
                         [BACKGROUND, FOREGROUND, BACKGROUND],
                         [BACKGROUND, BACKGROUND, BACKGROUND]],
       Called ''cv2.rectangle''])
   \<and> fg_cells [[BACKGROUND, BACKGROUND, BACKGROUND],
                [BACKGROUND, FOREGROUND, BACKGROUND],
                [BACKGROUND, BACKGROUND, BACKGROUND]] = [(1, 1)]
   \<and> fst (gaussian_blur sample_spaces sample_image None)
       = Inr [[BACKGROUND, BACKGROUND, BACKGROUND],
              [BACKGROUND, FOREGROUND, BACKGROUND],
              [BACKGROUND, BACKGROUND, BACKGROUND]]"
proof -
  have "roi sample_image [[BACKGROUND, BACKGROUND, BACKGROUND],
                     [BACKGROUND, FOREGROUND, BACKGROUND],
                     [BACKGROUND, BACKGROUND, BACKGROUND]]
   = (Inr \<lparr>canvas = [[(0, 0, 90), (0, 0, 90), (0, 0, 90)],
                     [(0, 0, 90), (0, 255, 0), (0, 0, 90)],
                     [(0, 0, 90), (0, 0, 90), (0, 0, 90)]],
           pt1 = (1, 1), pt2 = (2, 2), color = (255, 0, 0), thickness = 2\<rparr>,
      [MaskUsed ''roi'' [[BACKGROUND, BACKGROUND, BACKGROUND],
                         [BACKGROUND, FOREGROUND, BACKGROUND],
                         [BACKGROUND, BACKGROUND, BACKGROUND]],
       Called ''cv2.rectangle''])"
    by code_simp
  moreover have "fg_cells [[BACKGROUND, BACKGROUND, BACKGROUND],
                [BACKGROUND, FOREGROUND, BACKGROUND],
                [BACKGROUND, BACKGROUND, BACKGROUND]] = [(1, 1)]"
    by code_simp
  ultimately show ?thesis by (simp add: sample_pipeline)
qed

subsection \<open>The corners of the region of interest\<close>

lemma fold_min_Min: "fold min xs (x :: nat) = Min (set (x # xs))"
  by (rule Min.set_eq_fold [symmetric])

lemma fold_max_Max: "fold max xs (x :: nat) = Max (set (x # xs))"
  by (rule Max.set_eq_fold [symmetric])

lemma boundingRect_extent:
  assumes "fg_cells m \<noteq> []"
  shows "boundingRect m =
     (Min (snd ` set (fg_cells m)), Min (fst ` set (fg_cells m)),
      Max (snd ` set (fg_cells m)) - Min (snd ` set (fg_cells m)) + 1,
      Max (fst ` set (fg_cells m)) - Min (fst ` set (fg_cells m)) + 1)"
proof -
  obtain rc rcs where c: "fg_cells m = rc # rcs" using assms by (cases "fg_cells m") auto
  have s: "snd ` set (rc # rcs) = set (snd rc # map snd rcs)"
    "fst ` set (rc # rcs) = set (fst rc # map fst rcs)"
    by simp_all
  show ?thesis
    unfolding boundingRect_def c s fold_min_Min fold_max_Max
    by (simp add: Let_def)
qed

lemma roi_corners:
  assumes "fg_cells msk \<noteq> []" and "map length msk = map length img"
  shows "\<exists>d. fst (roi img msk) = Inr d
     \<and> pt1 d = (Min (snd ` set (fg_cells msk)), Min (fst ` set (fg_cells msk)))
     \<and> pt2 d = (Max (snd ` set (fg_cells msk)) + 1, Max (fst ` set (fg_cells msk)) + 1)"
proof -
  have le: "Min (snd ` set (fg_cells msk)) \<le> Max (snd ` set (fg_cells msk))"
    "Min (fst ` set (fg_cells msk)) \<le> Max (fst ` set (fg_cells msk))"
    using assms(1) by (simp_all add: Min_le_iff)
  show ?thesis
    unfolding roi_def boundingRect_extent [OF assms(1)]
    using assms(2) le
    by (simp add: bind_def emit_def lift_def effect_def Let_def)
qed

lemma roi_second_corner_outside:
  assumes "rc \<in> set (fg_cells msk)" and "map length msk = map length img"
    and "fst (roi img msk) = Inr d"
  shows "snd rc < fst (pt2 d) \<and> fst rc < snd (pt2 d)
     \<and> fst (pt1 d) \<le> snd rc \<and> snd (pt1 d) \<le> fst rc"
proof -
  have ne: "fg_cells msk \<noteq> []" using assms(1) by auto
  from roi_corners [OF ne assms(2)] assms(3)
  have p: "pt1 d = (Min (snd ` set (fg_cells msk)), Min (fst ` set (fg_cells msk)))"
    "pt2 d = (Max (snd ` set (fg_cells msk)) + 1, Max (fst ` set (fg_cells msk)) + 1)"
    by auto
  have "snd rc \<le> Max (snd ` set (fg_cells msk))" "fst rc \<le> Max (fst ` set (fg_cells msk))"
    "Min (snd ` set (fg_cells msk)) \<le> snd rc" "Min (fst ` set (fg_cells msk)) \<le> fst rc"
    using assms(1) by simp_all
  then show ?thesis unfolding p by simp
qed

lemma in_fg_cells:
  "rc \<in> set (fg_cells m) \<longleftrightarrow> in_grid m rc \<and> cell_at m rc = FOREGROUND"
  by (auto simp: fg_cells_def in_cells)

lemma roi_result:
  assumes "map length msk = map length img"
  shows "roi img msk =
     (Inr \<lparr>canvas = imap (\<lambda>r row. imap (\<lambda>c p.
                if cell_at msk (r, c) \<noteq> BACKGROUND then (0, 255, 0) else p) row) img,
           pt1 = (fst (boundingRect msk), fst (snd (boundingRect msk))),
           pt2 = (fst (boundingRect msk) + fst (snd (snd (boundingRect msk))),
                  fst (snd (boundingRect msk)) + snd (snd (snd (boundingRect msk)))),
           color = (255, 0, 0), thickness = 2\<rparr>,
      [MaskUsed ''roi'' msk, Called ''cv2.rectangle''])"
  using assms
  by (simp add: roi_def bind_def emit_def lift_def effect_def Let_def split: prod.splits)

text \<open>
  C9. For every image and every mask of the image's shape with at least one FOREGROUND
  cell, \<open>roi\<close> returns a copy of the image in which the FOREGROUND cells, and only
  they, are recoloured to the highlight colour \<open>(0, 255, 0)\<close>, and on it the rectangle
  with the corners \<open>(x, y)\<close> and \<open>(x + w, y + h)\<close> handed to \<open>cv2.rectangle\<close>. The
  rectangle is the minimal axis-aligned one enclosing the FOREGROUND cells: every
  FOREGROUND cell lies in the columns \<open>x \<le> c < x + w\<close> and the rows \<open>y \<le> r < y + h\<close>,
  and the first and the last of these columns and of these rows each hold a FOREGROUND
  cell.
\<close>

theorem roi_draws_minimal_box:
  assumes fg: "in_grid msk rc0" "cell_at msk rc0 = FOREGROUND"
    and shape: "map length msk = map length img"
  shows "\<exists>d. roi img msk = (Inr d, [MaskUsed ''roi'' msk, Called ''cv2.rectangle''])
     \<and> map length (canvas d) = map length img
     \<and> (\<forall>rc. in_grid img rc \<longrightarrow>
           cell_at (canvas d) rc
             = (if cell_at msk rc = FOREGROUND then (0, 255, 0) else cell_at img rc))
     \<and> (\<forall>rc. in_grid msk rc \<and> cell_at msk rc = FOREGROUND \<longrightarrow>
           fst (pt1 d) \<le> snd rc \<and> snd rc < fst (pt2 d)
           \<and> snd (pt1 d) \<le> fst rc \<and> fst rc < snd (pt2 d))
     \<and> (\<exists>rc. in_grid msk rc \<and> cell_at msk rc = FOREGROUND \<and> snd rc = fst (pt1 d))
     \<and> (\<exists>rc. in_grid msk rc \<and> cell_at msk rc = FOREGROUND \<and> Suc (snd rc) = fst (pt2 d))
     \<and> (\<exists>rc. in_grid msk rc \<and> cell_at msk rc = FOREGROUND \<and> fst rc = snd (pt1 d))
     \<and> (\<exists>rc. in_grid msk rc \<and> cell_at msk rc = FOREGROUND \<and> Suc (fst rc) = snd (pt2 d))
     \<and> color d = (255, 0, 0) \<and> thickness d = 2"
proof -
  let ?F = "set (fg_cells msk)"
  let ?cv = "imap (\<lambda>r row. imap (\<lambda>c p.
                if cell_at msk (r, c) \<noteq> BACKGROUND then (0, 255, 0) else p) row) img"
  let ?x0 = "Min (snd ` ?F)" and ?x1 = "Max (snd ` ?F)"
  let ?y0 = "Min (fst ` ?F)" and ?y1 = "Max (fst ` ?F)"
  let ?d = "\<lparr>canvas = ?cv, pt1 = (?x0, ?y0), pt2 = (?x1 + 1, ?y1 + 1),
             color = (255, 0, 0), thickness = 2\<rparr>"
  have mem: "rc0 \<in> ?F" using fg by (simp add: in_fg_cells)
  then have ne: "fg_cells msk \<noteq> []" by auto
  have fin: "finite (snd ` ?F)" "finite (fst ` ?F)" "snd ` ?F \<noteq> {}" "fst ` ?F \<noteq> {}"
    using mem by auto
  have le: "?x0 \<le> ?x1" "?y0 \<le> ?y1" using fin by (simp_all add: Min_le_iff)
  have r: "roi img msk = (Inr ?d, [MaskUsed ''roi'' msk, Called ''cv2.rectangle''])"
    unfolding roi_result [OF shape] boundingRect_extent [OF ne] using le by simp
  have len: "map length ?cv = map length img"
    by (rule nth_equalityI) simp_all
  have cv: "cell_at ?cv rc = (if cell_at msk rc = FOREGROUND then (0, 255, 0) else cell_at img rc)"
    if "in_grid img rc" for rc
  proof -
    have "cell_at msk rc \<noteq> BACKGROUND \<longleftrightarrow> cell_at msk rc = FOREGROUND"
      by (cases "cell_at msk rc") simp_all
    then show ?thesis using that by (cases rc) (simp add: in_grid_def cell_at_def)
  qed
  have inside: "?x0 \<le> snd rc \<and> snd rc < ?x1 + 1 \<and> ?y0 \<le> fst rc \<and> fst rc < ?y1 + 1"
    if "in_grid msk rc \<and> cell_at msk rc = FOREGROUND" for rc
  proof -
    have "rc \<in> ?F" using that by (simp add: in_fg_cells)
    then have "?x0 \<le> snd rc" "snd rc \<le> ?x1" "?y0 \<le> fst rc" "fst rc \<le> ?y1"
      by simp_all
    then show ?thesis by simp
  qed
  have "?x0 \<in> snd ` ?F" using fin by (intro Min_in)
  then obtain a where a: "a \<in> ?F" "snd a = ?x0" by auto
  have "?x1 \<in> snd ` ?F" using fin by (intro Max_in)
  then obtain b where b: "b \<in> ?F" "snd b = ?x1" by auto
  have "?y0 \<in> fst ` ?F" using fin by (intro Min_in)
  then obtain c where c: "c \<in> ?F" "fst c = ?y0" by auto
  have "?y1 \<in> fst ` ?F" using fin by (intro Max_in)
  then obtain e where e: "e \<in> ?F" "fst e = ?y1" by auto
  have left: "\<exists>rc. in_grid msk rc \<and> cell_at msk rc = FOREGROUND \<and> snd rc = fst (pt1 ?d)"
  proof (intro exI [of _ a] conjI)
    show "in_grid msk a" "cell_at msk a = FOREGROUND" using a(1) by (simp_all add: in_fg_cells)
    show "snd a = fst (pt1 ?d)" using a(2) by simp
  qed
  have right: "\<exists>rc. in_grid msk rc \<and> cell_at msk rc = FOREGROUND \<and> Suc (snd rc) = fst (pt2 ?d)"
  proof (intro exI [of _ b] conjI)
    show "in_grid msk b" "cell_at msk b = FOREGROUND" using b(1) by (simp_all add: in_fg_cells)
    show "Suc (snd b) = fst (pt2 ?d)" using b(2) by simp
  qed
  have top: "\<exists>rc. in_grid msk rc \<and> cell_at msk rc = FOREGROUND \<and> fst rc = snd (pt1 ?d)"
  proof (intro exI [of _ c] conjI)
    show "in_grid msk c" "cell_at msk c = FOREGROUND" using c(1) by (simp_all add: in_fg_cells)
    show "fst c = snd (pt1 ?d)" using c(2) by simp
  qed
  have bottom: "\<exists>rc. in_grid msk rc \<and> cell_at msk rc = FOREGROUND \<and> Suc (fst rc) = snd (pt2 ?d)"
  proof (intro exI [of _ e] conjI)
    show "in_grid msk e" "cell_at msk e = FOREGROUND" using e(1) by (simp_all add: in_fg_cells)
    show "Suc (fst e) = snd (pt2 ?d)" using e(2) by simp
  qed
  show ?thesis
  proof (intro exI [of _ ?d] conjI allI impI)
    show "roi img msk = (Inr ?d, [MaskUsed ''roi'' msk, Called ''cv2.rectangle''])" by (rule r)
    show "map length (canvas ?d) = map length img" using len by simp
    show "cell_at (canvas ?d) rc
            = (if cell_at msk rc = FOREGROUND then (0, 255, 0) else cell_at img rc)"
      if "in_grid img rc" for rc using cv [OF that] by simp
    show "fst (pt1 ?d) \<le> snd rc" if "in_grid msk rc \<and> cell_at msk rc = FOREGROUND" for rc
      using inside [OF that] by simp
    show "snd rc < fst (pt2 ?d)" if "in_grid msk rc \<and> cell_at msk rc = FOREGROUND" for rc
      using inside [OF that] by simp
    show "snd (pt1 ?d) \<le> fst rc" if "in_grid msk rc \<and> cell_at msk rc = FOREGROUND" for rc
      using inside [OF that] by simp
    show "fst rc < snd (pt2 ?d)" if "in_grid msk rc \<and> cell_at msk rc = FOREGROUND" for rc
      using inside [OF that] by simp
    show "\<exists>rc. in_grid msk rc \<and> cell_at msk rc = FOREGROUND \<and> snd rc = fst (pt1 ?d)"
      by (rule left)
    show "\<exists>rc. in_grid msk rc \<and> cell_at msk rc = FOREGROUND \<and> Suc (snd rc) = fst (pt2 ?d)"
      by (rule right)
    show "\<exists>rc. in_grid msk rc \<and> cell_at msk rc = FOREGROUND \<and> fst rc = snd (pt1 ?d)"
      by (rule top)
    show "\<exists>rc. in_grid msk rc \<and> cell_at msk rc = FOREGROUND \<and> Suc (fst rc) = snd (pt2 ?d)"
      by (rule bottom)
    show "color ?d = (255, 0, 0)" by simp
    show "thickness ?d = 2" by simp
  qed
qed

theorem roi_draws_minimal_box_witness:
  "in_grid [[BACKGROUND, BACKGROUND, BACKGROUND],
            [BACKGROUND, FOREGROUND, FOREGROUND],
            [BACKGROUND, BACKGROUND, BACKGROUND]] (1, 2)
   \<and> roi sample_image [[BACKGROUND, BACKGROUND, BACKGROUND],
                        [BACKGROUND, FOREGROUND, FOREGROUND],
                        [BACKGROUND, BACKGROUND, BACKGROUND]]
     = (Inr \<lparr>canvas = [[(0, 0, 90), (0, 0, 90), (0, 0, 90)],
                       [(0, 0, 90), (0, 255, 0), (0, 255, 0)],
                       [(0, 0, 90), (0, 0, 90), (0, 0, 90)]],
             pt1 = (1, 1), pt2 = (3, 2), color = (255, 0, 0), thickness = 2\<rparr>,
        [MaskUsed ''roi'' [[BACKGROUND, BACKGROUND, BACKGROUND],
                           [BACKGROUND, FOREGROUND, FOREGROUND],
                           [BACKGROUND, BACKGROUND, BACKGROUND]],
         Called ''cv2.rectangle''])"
proof -
  let ?m = "[[BACKGROUND, BACKGROUND, BACKGROUND],
             [BACKGROUND, FOREGROUND, FOREGROUND],
             [BACKGROUND, BACKGROUND, BACKGROUND]]"
  have g: "in_grid ?m (1, 2)" by (simp add: in_grid_def)
  have f: "cell_at ?m (1, 2) = FOREGROUND" by (simp add: cell_at_def)
  have s: "map length ?m = map length sample_image" by (simp add: sample_image_def)
  have ev: "roi sample_image ?m
     = (Inr \<lparr>canvas = [[(0, 0, 90), (0, 0, 90), (0, 0, 90)],
                       [(0, 0, 90), (0, 255, 0), (0, 255, 0)],
                       [(0, 0, 90), (0, 0, 90), (0, 0, 90)]],
             pt1 = (1, 1), pt2 = (3, 2), color = (255, 0, 0), thickness = 2\<rparr>,
        [MaskUsed ''roi'' ?m, Called ''cv2.rectangle''])"
    by code_simp
  show ?thesis using g ev roi_draws_minimal_box [OF g f s] by simp
qed

end
